theory Spec2Isabelle
  imports Main "HOL-Library.AList" "HOL-Library.List_Lexorder" "HOL-Library.Char_ord"
begin

section \<open>Data model\<close>

text \<open>
  The node of \<^verbatim>\<open>P2P.js\<close> and the tree of \<^verbatim>\<open>TransactionMerkle.js\<close>, embedded
  shallowly. The sources hold the tree's file inside \<^verbatim>\<open>README.md\<close>; the line numbers
  given for the tree are lines of that file, all others are lines of \<^verbatim>\<open>P2P.js\<close>.
  JavaScript numbers that hold amounts, balances and timestamps are
  integers (\<open>Math.floor\<close> of an integer is the integer itself); a JavaScript object
  used as a dictionary is a map, or an association list in insertion order where
  the code enumerates it (\<open>Object.keys\<close>, \<open>Object.values\<close>, \<open>Object.entries\<close>).
\<close>

subsection \<open>Transactions, accounts, committed records\<close>

text \<open>
  \<^verbatim>\<open>Transaction.js\<close> is not among the sources. Its fields are read by \<^verbatim>\<open>P2P.js\<close>
  as \<open>from\<close>, \<open>to\<close>, \<open>amount\<close>, \<open>nonce\<close>, \<open>timestamp\<close>, \<open>body\<close> and \<open>data\<close>;
  \<open>t_data = None\<close> is a transaction object without a \<open>data\<close> property.
\<close>

record transaction =
  t_from :: string
  t_to :: string
  t_amount :: int
  t_nonce :: int
  t_timestamp :: int
  t_body :: string
  t_data :: "string option"
  t_signature :: string

record account =
  balance :: int
  stake :: int
  nonce :: int

text \<open>The reasons \<open>transactionValid\<close> collects (its second component).\<close>

datatype reason =
    Transaction_from_future
  | Timestamp_has_expired
  | Amount_is_lower_than_fee
  | Invalid_from
  | Balance_lower_than_amount int int
  | Invalid_nonce
  | Caught_error

text \<open>
  The value of a \<open>valid\<close> field. The code writes a boolean (lines 234, 332, 351)
  or the whole pair \<open>[valid, reasons]\<close> (line 391, where the \<open>[0]\<close> is left out);
  a field that is absent reads as \<open>undefined\<close>.
\<close>

datatype jsvalid = JBool bool | JPair bool "reason list" | JUndefined

text \<open>\<open>v === true\<close>, \<open>v === false\<close>, \<open>v != true\<close> and \<open>v == false\<close> of JavaScript.
  An array \<open>[b, reasons]\<close> converts to a string with a comma, hence to NaN, which is
  loosely equal to no boolean.\<close>

fun strict_true :: "jsvalid \<Rightarrow> bool" where
  "strict_true (JBool b) = b"
| "strict_true (JPair b rs) = False"
| "strict_true JUndefined = False"

fun strict_false :: "jsvalid \<Rightarrow> bool" where
  "strict_false (JBool b) = (\<not> b)"
| "strict_false (JPair b rs) = False"
| "strict_false JUndefined = False"

fun loose_neq_true :: "jsvalid \<Rightarrow> bool" where
  "loose_neq_true (JBool b) = (\<not> b)"
| "loose_neq_true (JPair b rs) = True"
| "loose_neq_true JUndefined = True"

fun loose_eq_false :: "jsvalid \<Rightarrow> bool" where
  "loose_eq_false (JBool b) = (\<not> b)"
| "loose_eq_false (JPair b rs) = False"
| "loose_eq_false JUndefined = False"

text \<open>A committed record \<open>{ transaction, validators, validatorsRoot }\<close> (line 378).\<close>

record historyTransaction =
  h_transaction :: transaction
  h_validators :: "(string \<times> jsvalid) list"
  h_validatorsRoot :: string

subsection \<open>Messages\<close>

text \<open>The \<open>data\<close> of a \<open>TRANSACTION\<close> and of a \<open>CHAIN\<close> message. A root that is
  absent is \<open>None\<close>; \<open>None\<close> and the empty string are the falsy roots.\<close>

record vote_data =
  vd_transaction :: string
  vd_valid :: jsvalid
  vd_root :: "string option"

record chain_data =
  cd_transactions :: string
  cd_root :: "string option"

datatype payload =
    GET_CHAIN
  | CHAIN chain_data "string option"
  | VALIDATORS
  | VALIDATOR string
  | HELLO_VALIDATOR string
  | NEW_TRANSACTION string
  | TRANSACTION vote_data
  | UNKNOWN_TYPE

record envelope =
  e_payload :: payload
  e_id :: string
  e_key :: string
  e_sign :: string

subsection \<open>What the libraries and \<^verbatim>\<open>Transaction.js\<close> compute\<close>

text \<open>
  SHA-256 (\<open>crypto\<close>), secp256k1 (\<open>elliptic\<close>), \<open>JSON\<close>, the clock and the methods of
  \<^verbatim>\<open>Transaction.js\<close> are parameters of the model, collected in one record:
  the theorems below hold for all of them, and are instantiated on sample values
  where a concrete input is evaluated.
  \<^item> \<open>sha256 s\<close>: the hex digest \<open>hash(s)\<close>;
  \<^item> \<open>verify t\<close>: \<open>t.verify()\<close>, \<open>None\<close> when it throws;
  \<^item> \<open>hash_false t\<close>: \<open>t.hash(false).toString('hex')\<close>;
  \<^item> \<open>serialize\<close>, \<open>deserialize\<close>: the two methods, \<open>None\<close> when \<open>deserialize\<close> throws;
  \<^item> \<open>signature_ok e\<close>: the envelope's signature verifies under its key (line 250);
  \<^item> \<open>stringify\<close>, \<open>parse\<close>: \<open>JSON.stringify\<close> and \<open>JSON.parse\<close> on lists of records;
  \<^item> \<open>date_now_sec\<close>: \<open>Math.floor(Date.now() / 1000)\<close>;
  \<^item> \<open>string_lt_number s n\<close>: JavaScript's \<open>s < n\<close> for a string and a number.
\<close>

record env =
  sha256 :: "string \<Rightarrow> string"
  verify :: "transaction \<Rightarrow> bool option"
  hash_false :: "transaction \<Rightarrow> string"
  serialize :: "transaction \<Rightarrow> string"
  deserialize :: "string \<Rightarrow> transaction option"
  signature_ok :: "envelope \<Rightarrow> bool"
  stringify :: "historyTransaction list \<Rightarrow> string"
  parse :: "string \<Rightarrow> historyTransaction list option"
  date_now_sec :: int
  string_lt_number :: "string \<Rightarrow> nat \<Rightarrow> bool"

section \<open>The Merkle tree (\<^verbatim>\<open>TransactionMerkle.js\<close>)\<close>

record merkle =
  leaves :: "string list"
  levels :: "string list list"

text \<open>The constructor.\<close>

definition TransactionMerkle :: merkle where
  "TransactionMerkle = \<lparr>leaves = [], levels = [[]]\<rparr>"

text \<open>
  The loop of \<open>add\<close> (lines 70 to 84), by recursion on the levels from the one that
  receives the node: the node is pushed; when the level then has an even, positive
  number of nodes, it loses its last two (\<open>slice(0, -2)\<close>) and the hash of their
  concatenation is pushed on the next level, which is created when it is missing.
\<close>

fun promote :: "env \<Rightarrow> string list list \<Rightarrow> string \<Rightarrow> string list list" where
  "promote E [] h = [[h]]"
| "promote E (nodes # upper) h =
     (let pushed = nodes @ [h] in
      if length pushed mod 2 = 0 \<and> length pushed > 0
      then take (length pushed - 2) pushed #
           promote E upper
             (sha256 E (pushed ! (length pushed - 2) @ pushed ! (length pushed - 1)))
      else pushed # upper)"

text \<open>\<open>add\<close> receives the serialized transaction (\<^verbatim>\<open>P2P.js\<close> always passes
  \<open>transaction.serialize()\<close>), deserializes it and pushes the hex of \<open>hash(false)\<close>.
  An exception is caught and logged inside \<open>add\<close>: the tree is unchanged.\<close>

definition add :: "env \<Rightarrow> merkle \<Rightarrow> string \<Rightarrow> merkle" where
  "add E t s =
     (case deserialize E s of
        None \<Rightarrow> t
      | Some tx \<Rightarrow>
          \<lparr>leaves = leaves t @ [hash_false E tx],
           levels = promote E (levels t) (hash_false E tx)\<rparr>)"

text \<open>Decimal digits of a number, as string concatenation prints it.\<close>

definition digit :: "nat \<Rightarrow> char" where
  "digit d = ''0123456789'' ! d"

fun decimal :: "nat \<Rightarrow> string" where
  "decimal n = (if 10 \<le> n then decimal (n div 10) @ [digit (n mod 10)] else [digit n])"

declare decimal.simps [simp del]

text \<open>What \<open>getRoot\<close> returns: a string, \<open>undefined\<close> (\<open>nodes[0]\<close> of an empty
  array), or a thrown TypeError (\<open>hash(undefined)\<close>, or spreading \<open>undefined\<close>).\<close>

datatype root = Root string | Root_undefined | Root_TypeError

text \<open>
  The \<open>for\<close> loop of \<open>getRoot\<close> (lines 103 to 105) from index \<open>i\<close>. The argument of
  \<open>hash\<close> is \<open>nodes[i] + i + 1 < nodes.length ? nodes[i + 1] : nodes[i]\<close>, which
  JavaScript reads as \<open>((nodes[i] + i + 1) < nodes.length) ? ... : ...\<close>: the
  string \<open>nodes[i]\<close> followed by the digits of \<open>i\<close> and by \<open>1\<close> is compared with
  the number of nodes. \<open>None\<close> is the TypeError of \<open>hash(undefined)\<close>.
\<close>

function next_nodes :: "env \<Rightarrow> string list \<Rightarrow> nat \<Rightarrow> string list option" where
  "next_nodes E nodes i =
     (if i < length nodes then
        (let arg = (if string_lt_number E (nodes ! i @ decimal i @ ''1'') (length nodes)
                    then (if i + 1 < length nodes then Some (nodes ! (i + 1)) else None)
                    else Some (nodes ! i))
         in case arg of
              None \<Rightarrow> None
            | Some x \<Rightarrow>
                (case next_nodes E nodes (i + 2) of
                   None \<Rightarrow> None
                 | Some rest \<Rightarrow> Some (sha256 E x # rest)))
      else Some [])"
  by pat_completeness auto
termination
  by (relation "measure (\<lambda>(E, nodes, i). length nodes - i)") auto

declare next_nodes.simps [simp del]

lemma next_nodes_length:
  "next_nodes E nodes i = Some next \<Longrightarrow> length next = (length nodes - i + 1) div 2"
proof (induction E nodes i arbitrary: "next" rule: next_nodes.induct)
  case (1 E nodes i)
  show ?case
  proof (cases "i < length nodes")
    case False
    with "1.prems" show ?thesis by (subst (asm) next_nodes.simps) simp
  next
    case True
    from "1.prems" True obtain x rest where
      r: "next_nodes E nodes (i + 2) = Some rest" and n: "next = sha256 E x # rest"
      and a: "(if string_lt_number E (nodes ! i @ decimal i @ ''1'') (length nodes)
                    then (if i + 1 < length nodes then Some (nodes ! (i + 1)) else None)
                    else Some (nodes ! i)) = Some x"
      by (subst (asm) next_nodes.simps) (auto simp: Let_def split: option.splits if_splits)
    from "1.IH"[OF True refl a r] have "length rest = (length nodes - (i + 2) + 1) div 2" .
    with n True show ?thesis by (simp; presburger)
  qed
qed

text \<open>The \<open>while (nodes.length > 1)\<close> loop of \<open>getRoot\<close> and its \<open>return nodes[0]\<close>.\<close>

function fold_nodes :: "env \<Rightarrow> string list \<Rightarrow> root" where
  "fold_nodes E nodes =
     (if length nodes > 1 then
        (case next_nodes E nodes 0 of
           None \<Rightarrow> Root_TypeError
         | Some next \<Rightarrow> fold_nodes E next)
      else (case nodes of [] \<Rightarrow> Root_undefined | x # _ \<Rightarrow> Root x))"
  by pat_completeness auto
termination
proof (relation "measure (\<lambda>(E, nodes). length nodes)")
  show "wf (measure (\<lambda>(E, nodes). length nodes))" by simp
next
  fix E :: env and nodes x2
  assume "1 < length nodes" and "next_nodes E nodes 0 = Some x2"
  then show "((E, x2), E, nodes) \<in> measure (\<lambda>(E, nodes). length nodes)"
    using next_nodes_length[of E nodes 0 x2] by simp
qed

declare fold_nodes.simps [simp del]

definition getRoot :: "env \<Rightarrow> merkle \<Rightarrow> root" where
  "getRoot E t =
     (if length (leaves t) = 0 then Root (sha256 E ''0'')
      else if levels t = [] then Root_TypeError
      else fold_nodes E (last (levels t)))"

subsection \<open>The rule of the specification for the root\<close>

text \<open>
  The second definition of the root, written from the words of the specification:
  each adjacent pair \<open>(x, y)\<close> of the top-most level is replaced by the hash of
  \<open>x\<close> concatenated with \<open>y\<close>, the last node is paired with itself when the level
  has odd length, until one node remains; the empty tree has the root
  \<open>sha256("0")\<close>.
\<close>

fun pair_up :: "(string \<Rightarrow> string) \<Rightarrow> string list \<Rightarrow> string list" where
  "pair_up H (x # y # rest) = H (x @ y) # pair_up H rest"
| "pair_up H [x] = [H (x @ x)]"
| "pair_up H [] = []"

lemma pair_up_length: "length (pair_up H xs) = (length xs + 1) div 2"
  by (induction H xs rule: pair_up.induct) auto

function spec_fold :: "(string \<Rightarrow> string) \<Rightarrow> string list \<Rightarrow> string list" where
  "spec_fold H nodes = (if length nodes > 1 then spec_fold H (pair_up H nodes) else nodes)"
  by pat_completeness auto
termination
  by (relation "measure (\<lambda>(H, nodes). length nodes)") (auto simp: pair_up_length)

declare spec_fold.simps [simp del]

definition spec_root :: "(string \<Rightarrow> string) \<Rightarrow> merkle \<Rightarrow> root" where
  "spec_root H t =
     (if leaves t = [] then Root (H ''0'')
      else (case spec_fold H (last (levels t)) of [] \<Rightarrow> Root_undefined | x # _ \<Rightarrow> Root x))"

text \<open>The trees that a sequence of \<open>add\<close> calls builds from the constructor's.\<close>

definition added :: "env \<Rightarrow> string list \<Rightarrow> merkle" where
  "added E txs = foldl (add E) TransactionMerkle txs"


section \<open>The node (\<^verbatim>\<open>P2P.js\<close>)\<close>

subsection \<open>Constants and state\<close>

definition minStake :: int where "minStake = 1000000000"
definition fee :: int where "fee = 100"
definition fine :: int where "fine = 10000"
definition timestampRange :: int where "timestampRange = 60"
definition maxVoteTime :: int where "maxVoteTime = 10000"

text \<open>A socket of \<open>this.sockets\<close>: the key bound to it (line 262) and whether its
  \<open>readyState\<close> is \<open>OPEN\<close>.\<close>

record socket =
  s_key :: "string option"
  s_open :: bool

text \<open>The timer of \<open>getVoteTimeout\<close>: whether it is still pending, and the copy of
  the validator set its callback closes over.\<close>

record timer =
  armed :: bool
  lastValidators :: "string list"

text \<open>An entry of \<open>this.consensus\<close>: the \<open>data\<close> of a \<open>TRANSACTION\<close> message (line
  345), the \<open>data\<close> of a \<open>CHAIN\<close> message (line 277), or the node's own vote
  \<open>{ transaction, valid }\<close> (line 351).\<close>

datatype consensus_entry =
    Vote_entry vote_data
  | Chain_entry chain_data
  | Self_entry transaction jsvalid

fun entry_valid :: "consensus_entry \<Rightarrow> jsvalid" where
  "entry_valid (Vote_entry d) = vd_valid d"
| "entry_valid (Chain_entry d) = JUndefined"
| "entry_valid (Self_entry t v) = v"

fun entry_root :: "consensus_entry \<Rightarrow> string option" where
  "entry_root (Vote_entry d) = vd_root d"
| "entry_root (Chain_entry d) = cd_root d"
| "entry_root (Self_entry t v) = None"

fun entry_transactions :: "consensus_entry \<Rightarrow> string option" where
  "entry_transactions (Vote_entry d) = None"
| "entry_transactions (Chain_entry d) = Some (cd_transactions d)"
| "entry_transactions (Self_entry t v) = None"

text \<open>
  The fields of the \<open>P2P\<close> object. \<open>transactions\<close> and \<open>accounts\<close> are the two
  fields of \<open>this.chain\<close>. \<open>validators\<close> is the \<open>Set\<close>, as the list of its members
  in insertion order. \<open>sent\<close> logs the payloads handed to \<open>send\<close> (which signs
  them and writes them to every open socket), \<open>relayed\<close> the envelopes that the
  message handler forwards to the other open sockets.
\<close>

record node =
  transactions :: "historyTransaction list"
  accounts :: "string \<rightharpoonup> account"
  sockets :: "socket list"
  validators :: "string list"
  buf :: "string list"
  consensus :: "(string \<times> consensus_entry) list"
  vote :: "transaction option"
  publicKey :: string
  transactionMerkle :: merkle
  pendingTxs :: "transaction list"
  wantChain :: bool
  voteTimeout :: "timer option"
  sent :: "payload list"
  relayed :: "envelope list"

text \<open>The constructor (lines 37 to 51), for a chain handed in by the launcher.\<close>

definition P2P :: "historyTransaction list \<Rightarrow> (string \<rightharpoonup> account) \<Rightarrow> string \<Rightarrow> node" where
  "P2P txs accs pk =
     \<lparr>transactions = txs, accounts = accs, sockets = [], validators = [], buf = [],
      consensus = [], vote = None, publicKey = pk, transactionMerkle = TransactionMerkle,
      pendingTxs = [], wantChain = False, voteTimeout = None, sent = [], relayed = []\<rparr>"

text \<open>
  A handler either runs to its end or throws after the mutations made so far;
  \<open>Throw s\<close> carries the state at the throw, which is the state the node is left in
  once the exception is caught and logged.
\<close>

datatype 'a outcome = Ok 'a | Throw node

fun and_then :: "'a outcome \<Rightarrow> ('a \<Rightarrow> 'b outcome) \<Rightarrow> 'b outcome" where
  "and_then (Ok x) f = f x"
| "and_then (Throw s) f = Throw s"

fun caught :: "node outcome \<Rightarrow> node" where
  "caught (Ok s) = s"
| "caught (Throw s) = s"

fun threw :: "'a outcome \<Rightarrow> bool" where
  "threw (Ok x) = False"
| "threw (Throw s) = True"

definition send :: "node \<Rightarrow> payload \<Rightarrow> node" where
  "send s p = s\<lparr>sent := sent s @ [p]\<rparr>"

text \<open>\<open>merkle()\<close>, handed to a continuation: the root as a message carries it
  (\<open>None\<close> when \<open>getRoot\<close> returns \<open>undefined\<close>), or the TypeError.\<close>

definition merkle :: "env \<Rightarrow> node \<Rightarrow> (string option \<Rightarrow> 'a outcome) \<Rightarrow> 'a outcome" where
  "merkle E s k =
     (case getRoot E (transactionMerkle s) of
        Root r \<Rightarrow> k (Some r)
      | Root_undefined \<Rightarrow> k None
      | Root_TypeError \<Rightarrow> Throw s)"

subsection \<open>The scope of the account maps\<close>

text \<open>
  \<open>chain.accounts\<close> is a plain object (\<open>accounts: {}\<close>). For the names that every
  object answers through \<open>Object.prototype\<close>, \<open>accounts[k]\<close> reads an inherited
  function or object, which is truthy and is no account. The maps of the model hold
  the own properties of \<open>accounts\<close>: they describe the code on the other names. A
  record is plain when none of the names that the replay looks up for it is
  inherited.
\<close>

definition prototype_names :: "string list" where
  "prototype_names =
     [''constructor'', ''__proto__'', ''hasOwnProperty'', ''isPrototypeOf'',
      ''propertyIsEnumerable'', ''toLocaleString'', ''toString'', ''valueOf'',
      ''__defineGetter__'', ''__defineSetter__'', ''__lookupGetter__'', ''__lookupSetter__'']"

definition inherited :: "string \<Rightarrow> bool" where
  "inherited k \<longleftrightarrow> k \<in> set prototype_names"

definition plain_record :: "historyTransaction \<Rightarrow> bool" where
  "plain_record R \<longleftrightarrow>
     \<not> inherited (t_from (h_transaction R)) \<and> \<not> inherited (t_to (h_transaction R)) \<and>
     list_all (\<lambda>(k, v). \<not> inherited k) (h_validators R)"

text \<open>Amounts and balances are integers in the model and double-precision numbers
  in the code; the two agree on the integers up to \<open>2 ^ 53\<close> in absolute value, on
  which the sums and differences of the code are exact.\<close>

definition exact :: "int \<Rightarrow> bool" where
  "exact z \<longleftrightarrow> \<bar>z\<bar> \<le> 2 ^ 53"

subsection \<open>\<open>transactionValid\<close> (lines 198 to 224)\<close>

text \<open>
  The \<open>||\<close> chain of lines 202 to 207 short-circuits at a missing account, but the
  test of line 214 reads \<open>accounts[from].nonce\<close> whenever \<open>now\<close> is true: with
  \<open>now\<close> and no account of the sender, it throws, and the \<open>catch\<close> returns
  \<open>[false, [err]]\<close> before the genesis rule of line 215 is reached. So does a
  \<open>verify\<close> that throws. The sender's name is taken not to be inherited: under an
  inherited name the code finds a truthy \<open>accounts[from]\<close> without a balance.
\<close>

definition transactionValid :: "env \<Rightarrow> node \<Rightarrow> transaction \<Rightarrow> bool \<Rightarrow> bool \<times> reason list" where
  "transactionValid E s t now =
     (case verify E t of
        None \<Rightarrow> (False, [Caught_error])
      | Some verified \<Rightarrow>
          (let acc = accounts s (t_from t);
               future = (t_timestamp t > date_now_sec E + timestampRange);
               expired = (now \<and> t_timestamp t <
                            timestampRange + int (length (pendingTxs s)) * (maxVoteTime div 1000));
               low = (t_amount t < fee);
               poor = (case acc of None \<Rightarrow> False | Some a \<Rightarrow> balance a < t_amount t);
               stale = (case acc of None \<Rightarrow> False | Some a \<Rightarrow> now \<and> t_nonce t \<noteq> nonce a);
               valid = (verified \<and> \<not> (future \<or> expired \<or> low \<or> acc = None \<or> poor \<or> stale));
               reasons =
                 (if future then [Transaction_from_future] else []) @
                 (if expired then [Timestamp_has_expired] else []) @
                 (if low then [Amount_is_lower_than_fee] else []) @
                 (case acc of
                    None \<Rightarrow> [Invalid_from]
                  | Some a \<Rightarrow>
                      if balance a < t_amount t
                      then [Balance_lower_than_amount (balance a) (t_amount t)] else []) @
                 (if stale then [Invalid_nonce] else [])
           in if now \<and> acc = None then (False, [Caught_error])
              else if length (transactions s) < 6 \<and> t_body t = ''GENESIS'' then (True, [])
              else (valid, reasons)))"

subsection \<open>The account-state transition of the replay (\<open>createAccState\<close>, lines 155 to 190)\<close>

definition zero_account :: account where
  "zero_account = \<lparr>balance = 0, stake = 0, nonce = 0\<rparr>"

text \<open>\<open>accounts[k] = accounts[k] || { balance: 0, stake: 0, nonce: 0 }\<close>, for a name
  \<open>k\<close> that is not inherited: for an inherited name the code keeps the inherited
  value and creates no account.\<close>

definition ensure :: "(string \<rightharpoonup> account) \<Rightarrow> string \<Rightarrow> (string \<rightharpoonup> account)" where
  "ensure m k = (case m k of None \<Rightarrow> m(k \<mapsto> zero_account) | Some a \<Rightarrow> m)"

text \<open>An update of a field of \<open>accounts[k]\<close>; reading a field of a missing account
  is a TypeError. (Under an inherited name nothing is missing for the code: the field
  is read from, and written to, the inherited value.)\<close>

definition update_account ::
  "node \<Rightarrow> string \<Rightarrow> (account \<Rightarrow> account) \<Rightarrow> node outcome" where
  "update_account s k f =
     (case accounts s k of
        None \<Rightarrow> Throw s
      | Some a \<Rightarrow> Ok (s\<lparr>accounts := (accounts s)(k \<mapsto> f a)\<rparr>))"

text \<open>Lines 166 to 169: the account of \<open>from\<close> is created when missing, then debited.\<close>

definition replay_debit :: "node \<Rightarrow> nat \<Rightarrow> transaction \<Rightarrow> node outcome" where
  "replay_debit s i t =
     (if \<not> (t_from t = ''GENESIS'' \<and> i < 6)
      then update_account (s\<lparr>accounts := ensure (accounts s) (t_from t)\<rparr>) (t_from t)
             (\<lambda>a. a\<lparr>balance := balance a - t_amount t\<rparr>)
      else Ok s)"

text \<open>Lines 171 to 176 (and 359 to 364 of the commit, which are the same).\<close>

definition credit :: "node \<Rightarrow> transaction \<Rightarrow> node outcome" where
  "credit s t =
     (if t_to t \<noteq> ''stake''
      then update_account (s\<lparr>accounts := ensure (accounts s) (t_to t)\<rparr>) (t_to t)
             (\<lambda>a. a\<lparr>balance := balance a + (t_amount t - fee)\<rparr>)
      else update_account s (t_from t) (\<lambda>a. a\<lparr>stake := stake a + (t_amount t - fee)\<rparr>))"

text \<open>\<open>Array.prototype.join\<close>, and the strings that \<open>sort\<close> and \<open>join\<close> make of the
  values of \<open>validators\<close>.\<close>

fun join :: "string \<Rightarrow> string list \<Rightarrow> string" where
  "join sep [] = []"
| "join sep [x] = x"
| "join sep (x # y # rest) = x @ sep @ join sep (y # rest)"

definition decimal_int :: "int \<Rightarrow> string" where
  "decimal_int i = (if 0 \<le> i then decimal (nat i) else CHR ''-'' # decimal (nat (- i)))"

fun reason_text :: "reason \<Rightarrow> string" where
  "reason_text Transaction_from_future = ''Transaction from future''"
| "reason_text Timestamp_has_expired = ''Timestamp has expired''"
| "reason_text Amount_is_lower_than_fee = ''Amount is lower than fee''"
| "reason_text Invalid_from = ''Invalid from''"
| "reason_text (Balance_lower_than_amount b a) =
     ''Balance lower than amount ('' @ decimal_int b @ '' < '' @ decimal_int a @ '')''"
| "reason_text Invalid_nonce = ''Invalid nonce''"
| "reason_text Caught_error = ''[object Object]''"

fun js_string :: "jsvalid \<Rightarrow> string" where
  "js_string (JBool b) = (if b then ''true'' else ''false'')"
| "js_string (JPair b rs) =
     (if b then ''true'' else ''false'') @ '','' @ join '','' (map reason_text rs)"
| "js_string JUndefined = []"

text \<open>The default \<open>sort()\<close>: by the string of each element, \<open>undefined\<close> last.\<close>

definition js_sort :: "jsvalid list \<Rightarrow> jsvalid list" where
  "js_sort vs = sort_key js_string (filter (\<lambda>v. v \<noteq> JUndefined) vs) @
                filter (\<lambda>v. v = JUndefined) vs"

text \<open>The \<open>validatorsRoot\<close> of lines 177 and 378.\<close>

definition validatorsRoot :: "env \<Rightarrow> (string \<times> jsvalid) list \<Rightarrow> string" where
  "validatorsRoot E vs =
     sha256 E (join '':'' (sort (map fst vs)) @ '':'' @
               join '':'' (map js_string (js_sort (map snd vs))))"

text \<open>The loop of lines 178 to 183 over \<open>Object.entries(validators)\<close>; \<open>n\<close> is the
  number of validators of the record.\<close>

fun replay_rewards :: "node \<Rightarrow> nat \<Rightarrow> (string \<times> jsvalid) list \<Rightarrow> node outcome" where
  "replay_rewards s n [] = Ok s"
| "replay_rewards s n ((validator, valid) # rest) =
     and_then
       (update_account s validator
          (\<lambda>a. if loose_eq_false valid then a\<lparr>stake := stake a - fine\<rparr>
                else a\<lparr>balance := balance a + (fee div int n + 1)\<rparr>))
       (\<lambda>s'. replay_rewards s' n rest)"

text \<open>Lines 177 to 185.\<close>

definition replay_validators :: "env \<Rightarrow> node \<Rightarrow> nat \<Rightarrow> historyTransaction \<Rightarrow> node outcome" where
  "replay_validators E s i R =
     (let t = h_transaction R in
      if \<not> (t_data t = Some ''GENESIS'' \<and> i < 6) \<and>
         h_validatorsRoot R = validatorsRoot E (h_validators R)
      then and_then (replay_rewards s (length (h_validators R)) (h_validators R))
             (\<lambda>s'. update_account s' (t_from t) (\<lambda>a. a\<lparr>nonce := nonce a + 1\<rparr>))
      else Ok s)"

text \<open>The validity test of lines 159 to 164.\<close>

definition replay_valid :: "env \<Rightarrow> node \<Rightarrow> nat \<Rightarrow> transaction \<Rightarrow> bool" where
  "replay_valid E s i t =
     (if i < 6 \<and> t_body t = ''GENESIS'' then True else fst (transactionValid E s t False))"

text \<open>
  One iteration of the loop of \<open>createAccState\<close> at counter \<open>i\<close>; the result is the
  counter for the next record and the state. The record holds the transaction
  object (line 158 rebuilds it from its JSON). A record that fails the test is
  skipped and the counter stays.
\<close>

definition replay_record ::
  "env \<Rightarrow> node \<Rightarrow> nat \<Rightarrow> historyTransaction \<Rightarrow> (nat \<times> node) outcome" where
  "replay_record E s i R =
     (let t = h_transaction R in
      if \<not> replay_valid E s i t then Ok (i, s)
      else
        and_then (replay_debit s i t) (\<lambda>s1.
        and_then (credit s1 t) (\<lambda>s2.
        and_then (replay_validators E s2 i R) (\<lambda>s3.
          Ok (i + 1,
              s3\<lparr>transactionMerkle := add E (transactionMerkle s3) (serialize E t)\<rparr>)))))"

fun replay_loop ::
  "env \<Rightarrow> node \<Rightarrow> nat \<Rightarrow> historyTransaction list \<Rightarrow> (nat \<times> node) outcome" where
  "replay_loop E s i [] = Ok (i, s)"
| "replay_loop E s i (R # rest) =
     and_then (replay_record E s i R) (\<lambda>(i', s'). replay_loop E s' i' rest)"

definition createAccState :: "env \<Rightarrow> node \<Rightarrow> historyTransaction list \<Rightarrow> node outcome" where
  "createAccState E s txs = and_then (replay_loop E s 0 txs) (\<lambda>(i, s'). Ok s')"

subsection \<open>Sockets, the vote timer, submission\<close>

text \<open>\<open>getVoteTimeout\<close> (lines 226 to 228): a new timer, with a copy of the
  validator set.\<close>

definition getVoteTimeout :: "node \<Rightarrow> node" where
  "getVoteTimeout s = s\<lparr>voteTimeout := Some \<lparr>armed = True, lastValidators = validators s\<rparr>\<rparr>"

text \<open>\<open>if (this.voteTimeout) this.voteTimeout.close()\<close> (lines 385, 386): in
  Node.js \<open>close\<close> cancels the timer.\<close>

definition close_timer :: "node \<Rightarrow> node" where
  "close_timer s =
     (case voteTimeout s of
        None \<Rightarrow> s
      | Some tm \<Rightarrow> s\<lparr>voteTimeout := Some (tm\<lparr>armed := False\<rparr>)\<rparr>)"

text \<open>\<open>sendTransaction\<close> (lines 419 to 428).\<close>

definition sendTransaction :: "env \<Rightarrow> node \<Rightarrow> transaction \<Rightarrow> node" where
  "sendTransaction E s t =
     send (if vote s \<noteq> None then s\<lparr>pendingTxs := pendingTxs s @ [t]\<rparr>
           else getVoteTimeout (s\<lparr>vote := Some t, consensus := []\<rparr>))
          (NEW_TRANSACTION (serialize E t))"

text \<open>\<open>connectSocket\<close> (lines 133 to 136) and the \<open>close\<close> listener it installs
  (lines 137 to 140) for the socket at index \<open>k\<close>.\<close>

definition connectSocket :: "node \<Rightarrow> node" where
  "connectSocket s =
     send (s\<lparr>sockets := sockets s @ [\<lparr>s_key = None, s_open = True\<rparr>]\<rparr>)
          (VALIDATOR (publicKey s))"

definition close_socket :: "socket list \<Rightarrow> nat \<Rightarrow> socket list" where
  "close_socket ss k = (if k < length ss then ss[k := (ss ! k)\<lparr>s_open := False\<rparr>] else ss)"

definition on_close :: "node \<Rightarrow> nat \<Rightarrow> node" where
  "on_close s k =
     send (s\<lparr>sockets := close_socket (sockets s) k, validators := []\<rparr>) VALIDATORS"

text \<open>The callback of the timer (lines 229 to 235). It closes the socket bound to
  each validator of the copied set that has no entry in \<open>consensus\<close>, clears
  \<open>consensus\<close>, sends the vote again and arms a new timer. \<open>this.vote.serialize()\<close>
  throws when no vote is set; \<open>transactionValid\<close> is called without \<open>now\<close>.\<close>

fun find_index :: "('a \<Rightarrow> bool) \<Rightarrow> 'a list \<Rightarrow> nat option" where
  "find_index P [] = None"
| "find_index P (x # xs) =
     (if P x then Some 0 else map_option Suc (find_index P xs))"

fun close_silent :: "socket list \<Rightarrow> string list \<Rightarrow> socket list" where
  "close_silent ss [] = ss"
| "close_silent ss (validator # rest) =
     (case find_index (\<lambda>item. s_key item = Some validator) ss of
        None \<Rightarrow> close_silent ss rest
      | Some k \<Rightarrow> close_silent (close_socket ss k) rest)"

definition on_timeout :: "env \<Rightarrow> node \<Rightarrow> node outcome" where
  "on_timeout E s =
     (case voteTimeout s of
        None \<Rightarrow> Ok s
      | Some tm \<Rightarrow>
          (let silent = filter (\<lambda>item. item \<notin> set (map fst (consensus s))) (lastValidators tm);
               s1 = s\<lparr>sockets := close_silent (sockets s) silent, consensus := [],
                      voteTimeout := Some (tm\<lparr>armed := False\<rparr>)\<rparr>
           in case vote s1 of
                None \<Rightarrow> Throw s1
              | Some v \<Rightarrow>
                  merkle E s1 (\<lambda>root.
                    Ok (getVoteTimeout
                          (send s1
                             (TRANSACTION
                                \<lparr>vd_transaction = serialize E v,
                                 vd_valid = JBool (fst (transactionValid E s1 v False)),
                                 vd_root = root\<rparr>))))))"

subsection \<open>The message handler (lines 243 to 402)\<close>

text \<open>The test of line 250: a missing field is the empty string. A key that
  \<open>keyFromPublic\<close> rejects throws, which leaves the state as a failed
  verification does.\<close>

definition accepted :: "env \<Rightarrow> node \<Rightarrow> envelope \<Rightarrow> bool" where
  "accepted E s m \<longleftrightarrow>
     \<not> (e_key m = [] \<or> e_sign m = [] \<or> e_id m = [] \<or> e_id m \<in> set (buf s) \<or>
        \<not> signature_ok E m)"

text \<open>Lines 251 to 263: the id joins the window of the last ten, the envelope is
  forwarded, the socket at index \<open>k\<close> is bound to the sender's key.\<close>

definition bind_key :: "socket list \<Rightarrow> nat \<Rightarrow> string \<Rightarrow> socket list" where
  "bind_key ss k key = (if k < length ss then ss[k := (ss ! k)\<lparr>s_key := Some key\<rparr>] else ss)"

definition note_message :: "node \<Rightarrow> nat \<Rightarrow> envelope \<Rightarrow> node" where
  "note_message s k m =
     (let pushed = buf s @ [e_id m] in
      s\<lparr>buf := (if length pushed > 10 then tl pushed else pushed),
        relayed := relayed s @ [m],
        sockets := bind_key (sockets s) k (e_key m)\<rparr>)"

text \<open>Line 266. The constant is true for a sender that is \<^emph>\<open>not\<close> a staked
  validator: the handlers \<open>break\<close> when it holds.\<close>

definition isValidator :: "node \<Rightarrow> string \<Rightarrow> bool" where
  "isValidator s key = (case accounts s key of None \<Rightarrow> True | Some a \<Rightarrow> stake a < minStake)"

definition falsy_root :: "string option \<Rightarrow> bool" where
  "falsy_root r \<longleftrightarrow> r = None \<or> r = Some []"

text \<open>\<open>validators.add(x)\<close> on the \<open>Set\<close>.\<close>

definition set_add :: "string list \<Rightarrow> string \<Rightarrow> string list" where
  "set_add vs x = (if x \<in> set vs then vs else vs @ [x])"

text \<open>The count of roots of lines 280 to 287, over \<open>Object.values(consensus)\<close> in
  order: \<open>rootCount\<close> is the \<open>Map\<close> (an absent root counts 0), \<open>maxRoot\<close> starts as
  the empty string. The comparison reads the count of \<open>maxRoot\<close> after the
  update of line 285.\<close>

fun count_roots ::
  "(string option \<Rightarrow> nat) \<Rightarrow> string option \<Rightarrow> string option list \<Rightarrow> string option" where
  "count_roots rootCount maxRoot [] = maxRoot"
| "count_roots rootCount maxRoot (r # rest) =
     (let count = rootCount r + 1;
          rootCount' = rootCount(r := count)
      in count_roots rootCount' (if count > rootCount' maxRoot then r else maxRoot) rest)"

definition max_root :: "(string \<times> consensus_entry) list \<Rightarrow> string option" where
  "max_root cons = count_roots (\<lambda>r. 0) (Some []) (map (entry_root \<circ> snd) cons)"

text \<open>Lines 276 and 277: the response is kept under the sender's key when the key
  has no entry, the root is truthy and the JSON text has at least as many
  characters as \<open>this.chain\<close> has fields (two).\<close>

definition keep_chain :: "node \<Rightarrow> string \<Rightarrow> chain_data \<Rightarrow> node" where
  "keep_chain s key d =
     (if map_of (consensus s) key = None \<and> \<not> falsy_root (cd_root d) \<and>
         length (cd_transactions d) \<ge> 2
      then s\<lparr>consensus := AList.update key (Chain_entry d) (consensus s)\<rparr>
      else s)"

text \<open>Lines 289 to 299, for the state after line 277. \<open>JSON.parse\<close> throws on
  \<open>undefined\<close> (no entry has the root, or the entry has no \<open>transactions\<close>) and on
  a text that is not JSON.\<close>

definition adopt_chain :: "env \<Rightarrow> node \<Rightarrow> node outcome" where
  "adopt_chain E s =
     (case find (\<lambda>item. entry_root item = max_root (consensus s)) (map snd (consensus s)) of
        None \<Rightarrow> Throw s
      | Some item \<Rightarrow>
          (case entry_transactions item of
             None \<Rightarrow> Throw s
           | Some text \<Rightarrow>
               (case parse E text of
                  None \<Rightarrow> Throw s
                | Some txs \<Rightarrow>
                    if length txs \<ge> length (transactions s)
                    then (let s' = s\<lparr>accounts := Map.empty, wantChain := False,
                                       transactions := txs\<rparr>
                          in if length txs = 0 then Ok s' else createAccState E s' txs)
                    else Ok s)))"

definition on_CHAIN :: "env \<Rightarrow> node \<Rightarrow> string \<Rightarrow> chain_data \<Rightarrow> string option \<Rightarrow> node outcome" where
  "on_CHAIN E s key d for =
     (if for \<noteq> Some (publicKey s) \<or> \<not> wantChain s then Ok s
      else (let s1 = keep_chain s key d in
            if int (length (consensus s1)) \<ge> int (length (validators s1)) - 1
            then adopt_chain E s1
            else Ok s1))"

text \<open>The case \<open>NEW_TRANSACTION\<close> (lines 322 to 336). The log of line 324 calls
  \<open>verify\<close>, which may throw.\<close>

definition on_NEW_TRANSACTION :: "env \<Rightarrow> node \<Rightarrow> string \<Rightarrow> node outcome" where
  "on_NEW_TRANSACTION E s d =
     (case deserialize E d of
        None \<Rightarrow> Throw s
      | Some t \<Rightarrow>
          (case verify E t of
             None \<Rightarrow> Throw s
           | Some logged \<Rightarrow>
               if vote s \<noteq> None then Ok (s\<lparr>pendingTxs := pendingTxs s @ [t]\<rparr>)
               else
                 (let valid = fst (transactionValid E s t True) in
                  merkle E s (\<lambda>root.
                    Ok (getVoteTimeout
                          ((send s
                              (TRANSACTION
                                 \<lparr>vd_transaction = serialize E t, vd_valid = JBool valid,
                                  vd_root = root\<rparr>))
                           \<lparr>vote := Some t, consensus := []\<rparr>))))))"

subsection \<open>The case \<open>TRANSACTION\<close>: votes, tally, commit (lines 337 to 396)\<close>

text \<open>Lines 343 to 346: the vote is kept under the sender's key when the key has no
  entry and the unsigned hashes agree.\<close>

definition keep_vote :: "env \<Rightarrow> node \<Rightarrow> transaction \<Rightarrow> string \<Rightarrow> vote_data \<Rightarrow> node outcome" where
  "keep_vote E s v key d =
     (if map_of (consensus s) key = None
      then (case deserialize E (vd_transaction d) of
              None \<Rightarrow> Throw s
            | Some t \<Rightarrow>
                if hash_false E v = hash_false E t
                then Ok (s\<lparr>consensus := AList.update key (Vote_entry d) (consensus s)\<rparr>)
                else Ok s)
      else Ok s)"

text \<open>Lines 352 and 353.\<close>

definition tally_result :: "jsvalid list \<Rightarrow> bool" where
  "tally_result votes \<longleftrightarrow>
     length (filter strict_true votes) > length (filter strict_false votes)"

text \<open>Lines 356 to 358: the debit reads \<open>accounts[from].balance\<close> before line 358
  creates a missing account.\<close>

definition commit_debit :: "node \<Rightarrow> transaction \<Rightarrow> node outcome" where
  "commit_debit s t =
     and_then
       (if \<not> (t_from t = ''GENESIS'' \<and> length (transactions s) < 6)
        then update_account s (t_from t) (\<lambda>a. a\<lparr>balance := balance a - t_amount t\<rparr>)
        else Ok s)
       (\<lambda>s'. Ok (s'\<lparr>accounts := ensure (accounts s') (t_from t)\<rparr>))"

text \<open>The loop of lines 367 to 373 over \<open>validators\<close> (the keys of \<open>consensus\<close> from
  before the node's own vote, then the node's key); \<open>n\<close> is the length of that
  list. The vote agreed (\<open>result\<close> is true), so \<open>valid != result\<close> is
  \<open>valid != true\<close>.\<close>

fun commit_rewards :: "node \<Rightarrow> nat \<Rightarrow> string list \<Rightarrow> node outcome" where
  "commit_rewards s n [] = Ok s"
| "commit_rewards s n (validator # rest) =
     (case accounts s validator of
        None \<Rightarrow> commit_rewards s n rest
      | Some a \<Rightarrow>
          (case map_of (consensus s) validator of
             None \<Rightarrow> Throw s
           | Some entry \<Rightarrow>
               commit_rewards
                 (s\<lparr>accounts := (accounts s)(validator \<mapsto>
                      (if loose_neq_true (entry_valid entry) then a\<lparr>stake := stake a - fine\<rparr>
                       else a\<lparr>balance := balance a + (fee div int n + 1)\<rparr>))\<rparr>)
                 n rest))"

text \<open>Lines 365 to 375.\<close>

definition commit_validators :: "node \<Rightarrow> transaction \<Rightarrow> string list \<Rightarrow> node outcome" where
  "commit_validators s t voters =
     (if \<not> (t_data t = Some ''GENESIS'' \<and> length (transactions s) < 6)
      then (let voters' = voters @ [publicKey s] in
            and_then (commit_rewards s (length voters') voters')
              (\<lambda>s'. update_account s' (t_from t) (\<lambda>a. a\<lparr>nonce := nonce a + 1\<rparr>)))
      else Ok s)"

text \<open>Lines 376 to 378: the record of the slot.\<close>

definition historyRecord :: "env \<Rightarrow> node \<Rightarrow> transaction \<Rightarrow> historyTransaction" where
  "historyRecord E s t =
     (let validatorsVotes = map (\<lambda>(key, val). (key, entry_valid val)) (consensus s) in
      \<lparr>h_transaction = t, h_validators = validatorsVotes,
       h_validatorsRoot = validatorsRoot E validatorsVotes\<rparr>)"

text \<open>The branch \<open>if (result)\<close> (lines 356 to 380).\<close>

definition commit :: "env \<Rightarrow> node \<Rightarrow> transaction \<Rightarrow> string list \<Rightarrow> node outcome" where
  "commit E s t voters =
     and_then (commit_debit s t) (\<lambda>s1.
     and_then (credit s1 t) (\<lambda>s2.
     and_then (commit_validators s2 t voters) (\<lambda>s3.
       Ok (s3\<lparr>transactions := transactions s3 @ [historyRecord E s3 t],
              transactionMerkle := add E (transactionMerkle s3) (serialize E t)\<rparr>))))"

text \<open>Lines 384 to 394: the vote is cleared, the timer closed, and the head of the
  pending queue, if any, becomes the vote. Line 389 keeps the whole pair that
  \<open>transactionValid\<close> returns, and line 391 sends it as \<open>valid\<close>.\<close>

definition close_out :: "env \<Rightarrow> node \<Rightarrow> node outcome" where
  "close_out E s =
     (let s1 = close_timer (s\<lparr>vote := None\<rparr>) in
      case pendingTxs s1 of
        [] \<Rightarrow> Ok s1
      | tx # rest \<Rightarrow>
          (let s2 = s1\<lparr>pendingTxs := rest\<rparr>;
               valid = transactionValid E s2 tx True
           in merkle E s2 (\<lambda>root.
                Ok ((send s2
                       (TRANSACTION
                          \<lparr>vd_transaction = serialize E tx,
                           vd_valid = JPair (fst valid) (snd valid), vd_root = root\<rparr>))
                    \<lparr>vote := Some tx, consensus := []\<rparr>))))"

text \<open>Lines 348 to 395, for the state after line 346. The tally runs when
  \<open>consensus\<close> has at least as many keys as there are validators.\<close>

definition tally_due :: "node \<Rightarrow> bool" where
  "tally_due s \<longleftrightarrow> length (consensus s) \<ge> length (validators s)"

definition with_own_vote :: "env \<Rightarrow> node \<Rightarrow> transaction \<Rightarrow> node" where
  "with_own_vote E s t =
     s\<lparr>consensus :=
         AList.update (publicKey s)
           (Self_entry t (JBool (fst (transactionValid E s t False)))) (consensus s)\<rparr>"

definition votes_of :: "node \<Rightarrow> jsvalid list" where
  "votes_of s = map (entry_valid \<circ> snd) (consensus s)"

definition tally :: "env \<Rightarrow> node \<Rightarrow> transaction \<Rightarrow> node outcome" where
  "tally E s t =
     (let voters = map fst (consensus s);
          s1 = with_own_vote E s t
      in and_then (if tally_result (votes_of s1) then commit E s1 t voters else Ok s1)
           (close_out E))"

definition on_TRANSACTION :: "env \<Rightarrow> node \<Rightarrow> string \<Rightarrow> vote_data \<Rightarrow> node outcome" where
  "on_TRANSACTION E s key d =
     (case vote s of
        None \<Rightarrow> Ok s
      | Some v \<Rightarrow>
          if falsy_root (vd_root d) then Ok s
          else
            merkle E s (\<lambda>root.
              if root \<noteq> vd_root d \<or> isValidator s key then Ok s
              else and_then (keep_vote E s v key d)
                     (\<lambda>s1. if tally_due s1 then tally E s1 v else Ok s1)))"

text \<open>The \<open>switch\<close> of line 268.\<close>

fun dispatch :: "env \<Rightarrow> node \<Rightarrow> string \<Rightarrow> payload \<Rightarrow> node outcome" where
  "dispatch E s key GET_CHAIN =
     merkle E s (\<lambda>root.
       Ok (send s (CHAIN \<lparr>cd_transactions = stringify E (transactions s), cd_root = root\<rparr>
                     (Some key))))"
| "dispatch E s key (CHAIN d for) = on_CHAIN E s key d for"
| "dispatch E s key VALIDATORS =
     (if isValidator s key then Ok s
      else Ok (send (s\<lparr>validators := []\<rparr>) (VALIDATOR (publicKey s))))"
| "dispatch E s key (VALIDATOR d) =
     (if isValidator s key then Ok s
      else Ok (send (if d \<noteq> publicKey s then s\<lparr>validators := set_add (validators s) d\<rparr> else s)
                 (HELLO_VALIDATOR (publicKey s))))"
| "dispatch E s key (HELLO_VALIDATOR d) =
     (if isValidator s key then Ok s
      else Ok (if d \<noteq> publicKey s then s\<lparr>validators := set_add (validators s) d\<rparr> else s))"
| "dispatch E s key (NEW_TRANSACTION d) = on_NEW_TRANSACTION E s d"
| "dispatch E s key (TRANSACTION d) = on_TRANSACTION E s key d"
| "dispatch E s key UNKNOWN_TYPE = Ok s"

text \<open>The listener of line 244 for the socket at index \<open>k\<close>, with its \<open>try\<close> and
  \<open>catch\<close>.\<close>

definition msgHandler :: "env \<Rightarrow> node \<Rightarrow> nat \<Rightarrow> envelope \<Rightarrow> node" where
  "msgHandler E s k m =
     (if \<not> accepted E s m then s
      else caught (dispatch E (note_message s k m) (e_key m) (e_payload m)))"

subsection \<open>Start-up (lines 77 to 112) and the events of a run\<close>

text \<open>The loop of lines 96 to 108, which only fills the tree; \<open>verify\<close> may throw.\<close>

fun fill_tree :: "env \<Rightarrow> node \<Rightarrow> nat \<Rightarrow> historyTransaction list \<Rightarrow> node outcome" where
  "fill_tree E s i [] = Ok s"
| "fill_tree E s i (R # rest) =
     (let t = h_transaction R in
      case verify E t of
        None \<Rightarrow> Throw s
      | Some verified \<Rightarrow>
          if \<not> (if i < 6 \<and> t_body t = ''GENESIS'' then True else verified)
          then fill_tree E s i rest
          else fill_tree E
                 (s\<lparr>transactionMerkle := add E (transactionMerkle s) (serialize E t)\<rparr>)
                 (i + 1) rest)"

text \<open>What runs once every dial has settled. \<open>reconnect\<close>, which ends the process
  when no socket is open, changes no field and is left out.\<close>

definition start :: "env \<Rightarrow> node \<Rightarrow> node outcome" where
  "start E s =
     (let s0 = s\<lparr>consensus := []\<rparr> in
      if list_ex s_open (sockets s0) then Ok (send (s0\<lparr>wantChain := True\<rparr>) GET_CHAIN)
      else if length (transactions s0) > 0 \<and> accounts s0 = Map.empty
      then createAccState E s0 (transactions s0)
      else fill_tree E s0 0 (transactions s0))"

text \<open>The events that change a node, and a run: each event is handled under the
  clock and library behaviour of its moment.\<close>

datatype event =
    Started
  | Connected
  | Message nat envelope
  | Closed nat
  | Timer_fired
  | Submitted transaction

fun handle :: "env \<Rightarrow> node \<Rightarrow> event \<Rightarrow> node" where
  "handle E s Started = caught (start E s)"
| "handle E s Connected = connectSocket s"
| "handle E s (Message k m) = msgHandler E s k m"
| "handle E s (Closed k) = on_close s k"
| "handle E s Timer_fired =
     (case voteTimeout s of
        None \<Rightarrow> s
      | Some tm \<Rightarrow> if armed tm then caught (on_timeout E s) else s)"
| "handle E s (Submitted t) = sendTransaction E s t"

fun run :: "node \<Rightarrow> (env \<times> event) list \<Rightarrow> node" where
  "run s [] = s"
| "run s ((E, ev) # rest) = run (handle E s ev) rest"

section \<open>Auxiliary notions for the properties\<close>

text \<open>The invariant of the trees that \<open>add\<close> builds: every level holds at most
  one node, and the top-most level exactly one as soon as there is a leaf.\<close>

definition levels_inv :: "string list list \<Rightarrow> bool" where
  "levels_inv lv \<longleftrightarrow>
     list_all (\<lambda>l. length l \<le> 1) lv \<and> (lv = [] \<or> lv = [[]] \<or> length (last lv) = 1)"

definition merkle_inv :: "merkle \<Rightarrow> bool" where
  "merkle_inv t \<longleftrightarrow>
     levels_inv (levels t) \<and> levels t \<noteq> [] \<and>
     (leaves t = [] \<longrightarrow> levels t = [[]]) \<and>
     (leaves t \<noteq> [] \<longrightarrow> length (last (levels t)) = 1)"

text \<open>The state a handler leaves behind when its result carries the loop counter of
  the replay.\<close>

fun state_of :: "(nat \<times> node) outcome \<Rightarrow> node" where
  "state_of (Ok (i, s)) = s"
| "state_of (Throw s) = s"

text \<open>The node's identity and its validator set.\<close>

definition ids :: "node \<Rightarrow> string \<times> string list" where
  "ids s = (publicKey s, validators s)"

definition self_excluded :: "node \<Rightarrow> bool" where
  "self_excluded s \<longleftrightarrow> publicKey s \<notin> set (validators s)"

text \<open>Everything of a node but its chain and its tree, and the chain and tree
  alone.\<close>

definition session ::
  "node \<Rightarrow> socket list \<times> string list \<times> string list \<times> (string \<times> consensus_entry) list \<times>
     transaction option \<times> string \<times> transaction list \<times> bool \<times> timer option \<times>
     payload list \<times> envelope list" where
  "session s = (sockets s, validators s, buf s, consensus s, vote s, publicKey s,
     pendingTxs s, wantChain s, voteTimeout s, sent s, relayed s)"

definition ledger ::
  "node \<Rightarrow> historyTransaction list \<times> (string \<rightharpoonup> account) \<times> merkle" where
  "ledger s = (transactions s, accounts s, transactionMerkle s)"

fun is_TRANSACTION :: "payload \<Rightarrow> bool" where
  "is_TRANSACTION (TRANSACTION d) = True"
| "is_TRANSACTION p = False"

text \<open>The number of entries of \<open>consensus\<close> that report the root \<open>r\<close>.\<close>

definition reports :: "string option \<Rightarrow> (string \<times> consensus_entry) list \<Rightarrow> nat" where
  "reports r cons = count_list (map (entry_root \<circ> snd) cons) r"

text \<open>The accounts and the tree, which are what the replay computes; two results
  of a handler are alike when both return or both throw, with the same accounts
  and tree (and, for the replay loop, the same counter).\<close>

definition books :: "node \<Rightarrow> (string \<rightharpoonup> account) \<times> merkle" where
  "books s = (accounts s, transactionMerkle s)"

fun alike :: "node outcome \<Rightarrow> node outcome \<Rightarrow> bool" where
  "alike (Ok a) (Ok b) = (books a = books b)"
| "alike (Throw a) (Throw b) = (books a = books b)"
| "alike (Ok a) (Throw b) = False"
| "alike (Throw a) (Ok b) = False"

fun alike_counted :: "(nat \<times> node) outcome \<Rightarrow> (nat \<times> node) outcome \<Rightarrow> bool" where
  "alike_counted (Ok (i, a)) (Ok (j, b)) = (i = j \<and> books a = books b)"
| "alike_counted (Throw a) (Throw b) = (books a = books b)"
| "alike_counted (Ok p) (Throw b) = False"
| "alike_counted (Throw a) (Ok q) = False"

text \<open>The two clocks agree on whether the timestamp of \<open>t\<close> lies in the future
  (line 202).\<close>

definition same_future :: "env \<Rightarrow> int \<Rightarrow> transaction \<Rightarrow> bool" where
  "same_future E now t \<longleftrightarrow>
     (date_now_sec E + timestampRange < t_timestamp t) = (now + timestampRange < t_timestamp t)"

subsection \<open>What the replay of a record inside the genesis window touches\<close>

text \<open>The balance of an account, when there is one; the names that have an account
  once the debit and the credit of \<open>t\<close> were applied to \<open>s\<close> inside the genesis
  window (the sender unless it is \<open>GENESIS\<close>, the receiver unless it is \<open>stake\<close>, and
  whoever had one before); and the condition of line 177 inside the window, under
  which the reward step of a record runs.\<close>

definition balance_of :: "node \<Rightarrow> string \<Rightarrow> int option" where
  "balance_of s k = map_option balance (accounts s k)"

definition paid_in :: "node \<Rightarrow> transaction \<Rightarrow> string \<Rightarrow> bool" where
  "paid_in s t k \<longleftrightarrow>
     accounts s k \<noteq> None \<or> (k = t_from t \<and> t_from t \<noteq> ''GENESIS'') \<or>
     (k = t_to t \<and> t_to t \<noteq> ''stake'')"

definition rewarded :: "env \<Rightarrow> historyTransaction \<Rightarrow> bool" where
  "rewarded E R \<longleftrightarrow>
     t_data (h_transaction R) \<noteq> Some ''GENESIS'' \<and>
     h_validatorsRoot R = validatorsRoot E (h_validators R)"


section \<open>Sample values\<close>

text \<open>
  Concrete transactions, library behaviour and node states, on which the
  theorems below are instantiated and the model is evaluated. The sample
  \<open>sha256\<close> prefixes its argument with a mark, the sample serialization writes
  sender, receiver and signature, the sample hash sender, receiver and body, a
  signature verifies when it is not empty, and the sample clock reads 1000.
\<close>

definition sample_serialize :: "transaction \<Rightarrow> string" where
  "sample_serialize t = t_from t @ ''>'' @ t_to t @ ''/'' @ t_signature t"

definition sample_hash :: "transaction \<Rightarrow> string" where
  "sample_hash t = t_from t @ ''>'' @ t_to t @ ''/'' @ t_body t"

definition tx_a :: transaction where
  "tx_a = \<lparr>t_from = ''K1'', t_to = ''K2'', t_amount = 1000, t_nonce = 0, t_timestamp = 1000,
          t_body = ''a'', t_data = None, t_signature = ''sa''\<rparr>"

definition tx_b :: transaction where
  "tx_b = \<lparr>t_from = ''K1'', t_to = ''K2'', t_amount = 2000, t_nonce = 1, t_timestamp = 1000,
          t_body = ''b'', t_data = None, t_signature = ''sb''\<rparr>"

definition tx_big :: transaction where
  "tx_big = \<lparr>t_from = ''K1'', t_to = ''K2'', t_amount = 5001, t_nonce = 0, t_timestamp = 1000,
            t_body = ''big'', t_data = None, t_signature = ''sbig''\<rparr>"

definition tx_orphan :: transaction where
  "tx_orphan = \<lparr>t_from = ''X'', t_to = ''K2'', t_amount = 1000, t_nonce = 0,
               t_timestamp = 1000, t_body = ''GENESIS'', t_data = None, t_signature = ''so''\<rparr>"

definition tx_mint :: transaction where
  "tx_mint = \<lparr>t_from = ''GENESIS'', t_to = ''K1'', t_amount = 5100, t_nonce = 0,
             t_timestamp = 1000, t_body = ''GENESIS'', t_data = None, t_signature = []\<rparr>"

definition tx_seed :: transaction where
  "tx_seed = \<lparr>t_from = ''GENESIS'', t_to = ''GENESIS'', t_amount = 500, t_nonce = 0,
             t_timestamp = 1000, t_body = ''GENESIS'', t_data = None, t_signature = ''gg''\<rparr>"

definition tx_late :: transaction where
  "tx_late = \<lparr>t_from = ''K1'', t_to = ''K2'', t_amount = 1000, t_nonce = 0,
             t_timestamp = 2000, t_body = ''late'', t_data = None, t_signature = ''sl''\<rparr>"

text \<open>Minting for a key, staking by a key, and a transfer of more than \<open>K1\<close> will
  own.\<close>

definition mint :: "string \<Rightarrow> int \<Rightarrow> string \<Rightarrow> transaction" where
  "mint key amount sig =
     \<lparr>t_from = ''GENESIS'', t_to = key, t_amount = amount, t_nonce = 0, t_timestamp = 1000,
      t_body = ''GENESIS'', t_data = None, t_signature = sig\<rparr>"

definition staking :: "string \<Rightarrow> string \<Rightarrow> transaction" where
  "staking key sig =
     \<lparr>t_from = key, t_to = ''stake'', t_amount = 1000000100, t_nonce = 0, t_timestamp = 1000,
      t_body = ''staking'', t_data = None, t_signature = sig\<rparr>"

definition tx_huge :: transaction where
  "tx_huge = \<lparr>t_from = ''K1'', t_to = ''K2'', t_amount = 1000000001, t_nonce = 0,
             t_timestamp = 1000, t_body = ''huge'', t_data = None, t_signature = ''sh''\<rparr>"

definition sample_transactions :: "transaction list" where
  "sample_transactions =
     [tx_a, tx_b, tx_big, tx_orphan, tx_mint, tx_late, tx_huge,
      mint ''K1'' 2000000200 ''g1'', staking ''K1'' ''s1'',
      mint ''K2'' 2000000200 ''g2'', staking ''K2'' ''s2'', mint ''K0'' 200 ''g0'', tx_seed]"

text \<open>A record whose \<open>validatorsRoot\<close> does not match (the sample hash never
  returns the empty string), so that the replay skips its reward step.\<close>

definition unvoted :: "transaction \<Rightarrow> historyTransaction" where
  "unvoted t = \<lparr>h_transaction = t, h_validators = [], h_validatorsRoot = []\<rparr>"

definition sample_stringify :: "historyTransaction list \<Rightarrow> string" where
  "sample_stringify txs =
     ''['' @ concat (map (\<lambda>R. sample_serialize (h_transaction R) @ '';'') txs) @ '']''"

definition sample_chains :: "historyTransaction list list" where
  "sample_chains = [[], [unvoted tx_mint], [unvoted tx_mint, unvoted tx_a]]"

definition sample_env :: env where
  "sample_env =
     \<lparr>sha256 = (\<lambda>s. CHR ''#'' # s),
      verify = (\<lambda>t. Some (t_signature t \<noteq> [])),
      hash_false = sample_hash,
      serialize = sample_serialize,
      deserialize = (\<lambda>s. find (\<lambda>t. sample_serialize t = s) sample_transactions),
      signature_ok = (\<lambda>e. e_sign e = ''ok''),
      stringify = sample_stringify,
      parse = (\<lambda>s. find (\<lambda>c. sample_stringify c = s) sample_chains),
      date_now_sec = 1000,
      string_lt_number = (\<lambda>s n. False)\<rparr>"



text \<open>A node with the key \<open>K0\<close>, an empty chain and tree, and one staked account
  \<open>K1\<close>, which is its only validator.\<close>

definition staked :: account where
  "staked = \<lparr>balance = 5000, stake = 1000000000, nonce = 0\<rparr>"

definition sample_node :: node where
  "sample_node = (P2P [] [''K1'' \<mapsto> staked] ''K0'')\<lparr>validators := [''K1'']\<rparr>"

definition signed :: "string \<Rightarrow> string \<Rightarrow> payload \<Rightarrow> envelope" where
  "signed ident key p = \<lparr>e_payload = p, e_id = ident, e_key = key, e_sign = ''ok''\<rparr>"

definition empty_root :: "string option" where
  "empty_root = Some ''#0''"

text \<open>The sample node in a slot: a live vote, \<open>tx_a\<close> pending and the timer armed;
  and the \<open>TRANSACTION\<close> message by which \<open>K1\<close> votes on a candidate under the
  root of the empty tree.\<close>

definition voting_on :: "transaction \<Rightarrow> node" where
  "voting_on t = sample_node\<lparr>vote := Some t, pendingTxs := [tx_a],
     voteTimeout := Some \<lparr>armed = True, lastValidators = [''K1'']\<rparr>\<rparr>"

definition ballot :: "transaction \<Rightarrow> bool \<Rightarrow> vote_data" where
  "ballot t b = \<lparr>vd_transaction = sample_serialize t, vd_valid = JBool b, vd_root = empty_root\<rparr>"

definition vote_msg :: "transaction \<Rightarrow> bool \<Rightarrow> envelope" where
  "vote_msg t b = signed ''m2'' ''K1'' (TRANSACTION (ballot t b))"

text \<open>A node in start-up sync with three validators: \<open>K1\<close> has answered with a
  chain of two records under the root \<open>R\<close>, \<open>K2\<close> with a chain of one record under
  the root \<open>S\<close>; and the answer of \<open>K3\<close>, the two records under \<open>R\<close>.\<close>

definition long_chain :: chain_data where
  "long_chain = \<lparr>cd_transactions = sample_stringify [unvoted tx_mint, unvoted tx_a],
                 cd_root = Some ''R''\<rparr>"

definition short_chain :: chain_data where
  "short_chain = \<lparr>cd_transactions = sample_stringify [unvoted tx_mint], cd_root = Some ''S''\<rparr>"

definition syncing :: node where
  "syncing = (P2P [] Map.empty ''K0'')
     \<lparr>validators := [''K1'', ''K2'', ''K3''], wantChain := True,
      consensus := [(''K1'', Chain_entry long_chain), (''K2'', Chain_entry short_chain)]\<rparr>"

text \<open>A fresh node whose chain first credits the account \<open>GENESIS\<close> and then mints
  for \<open>K1\<close>; its state when the replay has applied the first record, when it has
  applied both, and when it has applied the first and then the transfer from \<open>X\<close>
  to \<open>K2\<close> with the body \<open>GENESIS\<close>.\<close>

definition seeded :: node where
  "seeded = P2P [unvoted tx_seed, unvoted tx_mint] Map.empty ''K0''"

definition seeded_once :: node where
  "seeded_once = seeded
     \<lparr>accounts := [''GENESIS'' \<mapsto> \<lparr>balance = 400, stake = 0, nonce = 0\<rparr>],
      transactionMerkle := \<lparr>leaves = [''GENESIS>GENESIS/GENESIS''],
                            levels = [[''GENESIS>GENESIS/GENESIS'']]\<rparr>\<rparr>"

definition seeded_twice :: node where
  "seeded_twice = seeded
     \<lparr>accounts := [''GENESIS'' \<mapsto> \<lparr>balance = 400, stake = 0, nonce = 0\<rparr>,
                   ''K1'' \<mapsto> \<lparr>balance = 5000, stake = 0, nonce = 0\<rparr>],
      transactionMerkle :=
        \<lparr>leaves = [''GENESIS>GENESIS/GENESIS'', ''GENESIS>K1/GENESIS''],
         levels = [[], [''#GENESIS>GENESIS/GENESISGENESIS>K1/GENESIS'']]\<rparr>\<rparr>"

definition seeded_debited :: node where
  "seeded_debited = seeded
     \<lparr>accounts := [''GENESIS'' \<mapsto> \<lparr>balance = 400, stake = 0, nonce = 0\<rparr>,
                   ''X'' \<mapsto> \<lparr>balance = - 1000, stake = 0, nonce = 0\<rparr>,
                   ''K2'' \<mapsto> \<lparr>balance = 900, stake = 0, nonce = 0\<rparr>],
      transactionMerkle :=
        \<lparr>leaves = [''GENESIS>GENESIS/GENESIS'', ''X>K2/GENESIS''],
         levels = [[], [''#GENESIS>GENESIS/GENESISX>K2/GENESIS'']]\<rparr>\<rparr>"

text \<open>A fresh node whose chain mints for \<open>K1\<close> and then holds \<open>tx_late\<close>, dated 2000;
  and a second node with the same chain, another key and other pending work.\<close>

definition late_chain :: "historyTransaction list" where
  "late_chain = [unvoted tx_mint, unvoted tx_late]"

definition late_node :: node where
  "late_node = P2P late_chain Map.empty ''K0''"

definition other_node :: node where
  "other_node = (P2P late_chain Map.empty ''K9'')\<lparr>validators := [''K1''], pendingTxs := [tx_b]\<rparr>"

text \<open>
  A chain that mints for \<open>K1\<close> and \<open>K2\<close>, lets both stake, and mints for \<open>K0\<close>;
  the accounts and the tree that its replay from a fresh node yields; and the node
  \<open>K0\<close> that holds them, with \<open>K1\<close> and \<open>K2\<close> as validators, in a slot on a
  candidate for which \<open>K1\<close> has voted true.
\<close>

definition funded_chain :: "historyTransaction list" where
  "funded_chain =
     [unvoted (mint ''K1'' 2000000200 ''g1''), unvoted (staking ''K1'' ''s1''),
      unvoted (mint ''K2'' 2000000200 ''g2''), unvoted (staking ''K2'' ''s2''),
      unvoted (mint ''K0'' 200 ''g0'')]"

definition funded_accounts :: "string \<rightharpoonup> account" where
  "funded_accounts =
     [''K1'' \<mapsto> \<lparr>balance = 1000000000, stake = 1000000000, nonce = 0\<rparr>,
      ''K2'' \<mapsto> \<lparr>balance = 1000000000, stake = 1000000000, nonce = 0\<rparr>,
      ''K0'' \<mapsto> \<lparr>balance = 100, stake = 0, nonce = 0\<rparr>]"

definition funded_tree :: merkle where
  "funded_tree =
     \<lparr>leaves = [''GENESIS>K1/GENESIS'', ''K1>stake/staking'', ''GENESIS>K2/GENESIS'',
                ''K2>stake/staking'', ''GENESIS>K0/GENESIS''],
      levels = [[''GENESIS>K0/GENESIS''], [],
                [''##GENESIS>K1/GENESISK1>stake/staking#GENESIS>K2/GENESISK2>stake/staking'']]\<rparr>"

definition funded_root :: "string option" where
  "funded_root =
     Some ''##GENESIS>K1/GENESISK1>stake/staking#GENESIS>K2/GENESISK2>stake/staking''"

definition fresh_node :: "historyTransaction list \<Rightarrow> node" where
  "fresh_node txs = P2P txs Map.empty ''K0''"

definition funded_ballot :: "transaction \<Rightarrow> vote_data" where
  "funded_ballot t =
     \<lparr>vd_transaction = sample_serialize t, vd_valid = JBool True, vd_root = funded_root\<rparr>"

definition funded_slot :: "transaction \<Rightarrow> node" where
  "funded_slot t =
     (P2P funded_chain funded_accounts ''K0'')
       \<lparr>transactionMerkle := funded_tree, validators := [''K1'', ''K2''], vote := Some t,
        consensus := [(''K1'', Vote_entry (funded_ballot t))]\<rparr>"

text \<open>The funded node in a slot on \<open>tx_orphan\<close>, with \<open>tx_a\<close> pending and the timer
  armed, and the vote of \<open>K2\<close> on that candidate.\<close>

definition stuck_slot :: node where
  "stuck_slot = (funded_slot tx_orphan)
     \<lparr>pendingTxs := [tx_a],
      voteTimeout := Some \<lparr>armed = True, lastValidators = [''K1'', ''K2'']\<rparr>\<rparr>"

definition stuck_msg :: envelope where
  "stuck_msg = signed ''m4'' ''K2'' (TRANSACTION (funded_ballot tx_orphan))"

section \<open>Unfolding for evaluation\<close>

text \<open>The definitions that the simplifier unfolds to evaluate the model on the
  sample values.\<close>

lemmas sample_defs = sample_env_def sample_serialize_def sample_hash_def tx_a_def tx_b_def
  mint_def staking_def tx_huge_def
  tx_big_def tx_orphan_def tx_mint_def tx_seed_def tx_late_def sample_transactions_def
  unvoted_def
  sample_stringify_def sample_chains_def staked_def sample_node_def signed_def empty_root_def
  P2P_def TransactionMerkle_def

lemmas handler_defs = msgHandler_def accepted_def note_message_def bind_key_def
  on_NEW_TRANSACTION_def on_TRANSACTION_def merkle_def getRoot_def send_def getVoteTimeout_def
  transactionValid_def sendTransaction_def keep_vote_def tally_due_def tally_def
  with_own_vote_def votes_of_def tally_result_def close_out_def close_timer_def commit_def
  commit_debit_def update_account_def credit_def ensure_def isValidator_def falsy_root_def
  minStake_def fee_def fine_def timestampRange_def maxVoteTime_def

lemmas sample_defs2 = sample_defs voting_on_def ballot_def vote_msg_def

lemmas replay_defs = createAccState_def replay_record_def replay_valid_def replay_debit_def
  replay_validators_def validatorsRoot_def js_sort_def add_def zero_account_def

lemmas sync_defs = on_CHAIN_def keep_chain_def adopt_chain_def max_root_def falsy_root_def
  long_chain_def short_chain_def syncing_def

lemmas funded_defs = funded_chain_def funded_accounts_def funded_tree_def funded_root_def
  fresh_node_def funded_ballot_def funded_slot_def

lemmas commit_defs = commit_validators_def historyRecord_def
section \<open>Properties of the Merkle tree\<close>

text \<open>The invariant of the levels is kept by \<open>add\<close>: the levels are a binary
  counter.\<close>

lemma promote_not_Nil: "promote E lv h \<noteq> []"
  by (cases lv) (auto simp: Let_def)

lemma promote_small:
  "list_all (\<lambda>l. length l \<le> 1) lv \<Longrightarrow> list_all (\<lambda>l. length l \<le> 1) (promote E lv h)"
proof (induction lv arbitrary: h)
  case Nil
  show ?case by simp
next
  case (Cons nodes upper)
  then have "nodes = [] \<or> length nodes = 1" and "list_all (\<lambda>l. length l \<le> 1) upper"
    by (cases nodes; simp)+
  with Cons.IH show ?case by (auto simp: Let_def)
qed

lemma promote_top:
  "levels_inv lv \<Longrightarrow> length (last (promote E lv h)) = 1"
proof (induction lv arbitrary: h)
  case Nil
  show ?case by simp
next
  case (Cons nodes upper)
  from Cons.prems have small: "length nodes \<le> 1" and rest: "list_all (\<lambda>l. length l \<le> 1) upper"
    by (auto simp: levels_inv_def)
  show ?case
  proof (cases "length nodes = 0")
    case True
    with Cons.prems show ?thesis
      by (cases upper) (auto simp: levels_inv_def Let_def)
  next
    case False
    with small have one: "length nodes = 1" by (cases nodes) auto
    from Cons.prems one have "levels_inv upper"
      using rest by (cases upper) (auto simp: levels_inv_def split: if_splits)
    from Cons.IH[OF this] one show ?thesis
      by (simp add: Let_def promote_not_Nil)
  qed
qed

lemma promote_inv: "levels_inv lv \<Longrightarrow> levels_inv (promote E lv h)"
  using promote_small[of lv E h] promote_top[of lv E h]
  by (simp add: levels_inv_def)

lemma merkle_inv_init: "merkle_inv TransactionMerkle"
  by (simp add: merkle_inv_def levels_inv_def TransactionMerkle_def)

lemma merkle_inv_add: "merkle_inv t \<Longrightarrow> merkle_inv (add E t s)"
  by (auto simp: merkle_inv_def add_def promote_inv promote_top promote_not_Nil
      split: option.splits)

lemma merkle_inv_foldl: "merkle_inv t \<Longrightarrow> merkle_inv (foldl (add E) t txs)"
  by (induction txs arbitrary: t) (simp_all add: merkle_inv_add)

lemma merkle_inv_added: "merkle_inv (added E txs)"
  by (simp add: added_def merkle_inv_foldl merkle_inv_init)

lemma singleton_top:
  assumes "length nodes = 1"
  shows "fold_nodes E nodes = Root (hd nodes)" and "spec_fold H nodes = nodes"
  using assms by (cases nodes; simp add: fold_nodes.simps spec_fold.simps)+

lemma getRoot_inv:
  assumes "merkle_inv t"
  shows "getRoot E t = spec_root (sha256 E) t"
proof (cases "leaves t = []")
  case True
  then show ?thesis by (simp add: getRoot_def spec_root_def)
next
  case False
  with assms have top: "length (last (levels t)) = 1" and ne: "levels t \<noteq> []"
    by (auto simp: merkle_inv_def)
  from top obtain x where x: "last (levels t) = [x]"
    by (cases "last (levels t)") auto
  from False ne x show ?thesis
    by (simp add: getRoot_def spec_root_def fold_nodes.simps spec_fold.simps)
qed


lemma added_Nil: "added E [] = TransactionMerkle"
  by (simp add: added_def)

text \<open>As soon as one transaction was added, the top-most level holds exactly one
  node and \<open>getRoot\<close> returns it: its \<open>while\<close> loop does not iterate.\<close>

lemma getRoot_top_node:
  assumes "leaves (added E txs) \<noteq> []"
  shows "\<exists>x. last (levels (added E txs)) = [x] \<and> getRoot E (added E txs) = Root x"
proof -
  from assms merkle_inv_added[of E txs]
  have "length (last (levels (added E txs))) = 1" and ne: "levels (added E txs) \<noteq> []"
    by (auto simp: merkle_inv_def)
  then obtain x where x: "last (levels (added E txs)) = [x]"
    by (cases "last (levels (added E txs))") auto
  with assms ne have "getRoot E (added E txs) = Root x"
    by (simp add: getRoot_def fold_nodes.simps)
  with x show ?thesis by blast
qed


text \<open>For every sequence of transactions added to the tree of the constructor,
  \<open>getRoot\<close> and the rule of the specification agree, since neither has a pair to
  fold: the top-most level holds one node.\<close>

lemma getRoot_on_added:
  "getRoot E (added E txs) = spec_root (sha256 E) (added E txs) \<and>
   getRoot E (added E []) = Root (sha256 E ''0'')"
  using getRoot_inv[OF merkle_inv_added[of E txs], of E]
  by (simp add: added_Nil getRoot_def TransactionMerkle_def)




section \<open>The validator set never holds the node's own key\<close>

text \<open>Every operation but the handlers of \<open>VALIDATORS\<close>, \<open>VALIDATOR\<close> and
  \<open>HELLO_VALIDATOR\<close> and the \<open>close\<close> listener leaves the key and the validator
  set as they are, whether it returns or throws.\<close>


lemma caught_and_then:
  "caught (and_then a f) = (case a of Ok x \<Rightarrow> caught (f x) | Throw s \<Rightarrow> s)"
  by (cases a) auto

lemma state_of_and_then:
  "state_of (and_then a f) = (case a of Ok x \<Rightarrow> state_of (f x) | Throw s \<Rightarrow> s)"
  by (cases a) auto

subsection \<open>The replay and the commit touch only the chain and the tree\<close>

lemma session_updates [simp]:
  "session (s\<lparr>accounts := a\<rparr>) = session s"
  "session (s\<lparr>transactionMerkle := m\<rparr>) = session s"
  "session (s\<lparr>transactions := x\<rparr>) = session s"
  by (simp_all add: session_def)

lemma session_then:
  assumes "session (caught a) = session s" and "\<And>x. session (caught (f x)) = session x"
  shows "session (caught (and_then a f)) = session s"
  using assms by (cases a) auto

lemma session_then_pair:
  assumes "session (caught a) = session s" and "\<And>x. session (state_of (f x)) = session x"
  shows "session (state_of (and_then a f)) = session s"
  using assms by (cases a) auto

lemma session_update_account [simp]: "session (caught (update_account s k f)) = session s"
  by (simp add: update_account_def split: option.splits)

lemma session_replay_debit [simp]: "session (caught (replay_debit s i t)) = session s"
  using session_update_account[of "s\<lparr>accounts := ensure (accounts s) (t_from t)\<rparr>"]
  by (simp add: replay_debit_def)

lemma session_credit [simp]: "session (caught (credit s t)) = session s"
  using session_update_account[of "s\<lparr>accounts := ensure (accounts s) (t_to t)\<rparr>"]
  by (simp add: credit_def)

lemma session_replay_rewards [simp]: "session (caught (replay_rewards s n vs)) = session s"
proof (induction vs arbitrary: s)
  case Nil
  show ?case by simp
next
  case (Cons v vs)
  obtain k b where v: "v = (k, b)" by (cases v)
  show ?case unfolding v replay_rewards.simps
    by (rule session_then) (simp_all add: Cons.IH)
qed

lemma session_replay_validators [simp]:
  "session (caught (replay_validators E s i R)) = session s"
  unfolding replay_validators_def Let_def
  by (auto intro!: session_then)

lemma session_replay_record [simp]: "session (state_of (replay_record E s i R)) = session s"
  unfolding replay_record_def Let_def
  by (auto intro!: session_then_pair)

lemma session_replay_loop [simp]: "session (state_of (replay_loop E s i txs)) = session s"
proof (induction txs arbitrary: s i)
  case Nil
  show ?case by simp
next
  case (Cons R txs)
  show ?case
  proof (cases "replay_record E s i R")
    case (Ok p)
    obtain i' s' where p: "p = (i', s')" by (cases p)
    from session_replay_record[of E s i R] Ok p have "session s' = session s" by simp
    with Cons.IH[of s' i'] Ok p show ?thesis by simp
  next
    case (Throw s')
    with session_replay_record[of E s i R] show ?thesis by simp
  qed
qed

lemma session_createAccState [simp]: "session (caught (createAccState E s txs)) = session s"
  using session_replay_loop[of E s 0 txs]
  by (cases "replay_loop E s 0 txs") (auto simp: createAccState_def)

lemma session_fill_tree [simp]: "session (caught (fill_tree E s i txs)) = session s"
  by (induction txs arbitrary: s i) (auto simp: Let_def split: option.splits)

lemma session_commit_debit [simp]: "session (caught (commit_debit s t)) = session s"
  unfolding commit_debit_def
  by (rule session_then) auto

lemma session_commit_rewards [simp]: "session (caught (commit_rewards s n vs)) = session s"
proof (induction vs arbitrary: s)
  case Nil
  show ?case by simp
next
  case (Cons v vs)
  have c: "consensus (s\<lparr>accounts := a\<rparr>) = consensus s" for a by simp
  show ?case
    by (simp split: option.splits) (auto simp: Cons.IH)
qed

lemma session_commit_validators [simp]:
  "session (caught (commit_validators s t voters)) = session s"
  unfolding commit_validators_def Let_def
  by (auto intro!: session_then)

lemma session_commit [simp]: "session (caught (commit E s t voters)) = session s"
  unfolding commit_def
  by (auto intro!: session_then)

subsection \<open>The key and the validator set\<close>

lemma ids_session: "session s' = session s \<Longrightarrow> ids s' = ids s"
  by (simp add: session_def ids_def)

lemma ids_accounts [simp]: "ids (s\<lparr>accounts := a\<rparr>) = ids s"
  and ids_merkle [simp]: "ids (s\<lparr>transactionMerkle := m\<rparr>) = ids s"
  and ids_transactions [simp]: "ids (s\<lparr>transactions := x\<rparr>) = ids s"
  and ids_consensus [simp]: "ids (s\<lparr>consensus := c\<rparr>) = ids s"
  and ids_vote [simp]: "ids (s\<lparr>vote := v\<rparr>) = ids s"
  and ids_pending [simp]: "ids (s\<lparr>pendingTxs := p\<rparr>) = ids s"
  and ids_wantChain [simp]: "ids (s\<lparr>wantChain := w\<rparr>) = ids s"
  and ids_voteTimeout [simp]: "ids (s\<lparr>voteTimeout := tm\<rparr>) = ids s"
  and ids_sent [simp]: "ids (s\<lparr>sent := y\<rparr>) = ids s"
  and ids_relayed [simp]: "ids (s\<lparr>relayed := r\<rparr>) = ids s"
  and ids_buf [simp]: "ids (s\<lparr>buf := b\<rparr>) = ids s"
  and ids_sockets [simp]: "ids (s\<lparr>sockets := ss\<rparr>) = ids s"
  by (simp_all add: ids_def)

lemma ids_then:
  assumes "ids (caught a) = ids s" and "\<And>x. ids (caught (f x)) = ids x"
  shows "ids (caught (and_then a f)) = ids s"
  using assms by (cases a) auto

lemma ids_merkle_k:
  assumes "\<And>r. ids (caught (k r)) = c" and "ids s = c"
  shows "ids (caught (merkle E s k)) = c"
  using assms by (simp add: merkle_def split: root.splits)

lemma ids_createAccState [simp]: "ids (caught (createAccState E s txs)) = ids s"
  by (rule ids_session) simp

lemma ids_fill_tree [simp]: "ids (caught (fill_tree E s i txs)) = ids s"
  by (rule ids_session) simp

lemma ids_commit [simp]: "ids (caught (commit E s t voters)) = ids s"
  by (rule ids_session) simp

lemma ids_send [simp]: "ids (send s p) = ids s"
  by (simp add: send_def)

lemma ids_start [simp]: "ids (caught (start E s)) = ids s"
  using ids_createAccState[of E "s\<lparr>consensus := []\<rparr>"] ids_fill_tree[of E "s\<lparr>consensus := []\<rparr>" 0]
  by (simp add: start_def Let_def)

lemma ids_getVoteTimeout [simp]: "ids (getVoteTimeout s) = ids s"
  by (simp add: getVoteTimeout_def)

lemma ids_close_timer [simp]: "ids (close_timer s) = ids s"
  by (simp add: close_timer_def split: option.splits)

lemma ids_close_out [simp]: "ids (caught (close_out E s)) = ids s"
  unfolding close_out_def Let_def
  by (auto intro!: ids_merkle_k split: list.splits)

lemma ids_with_own_vote [simp]: "ids (with_own_vote E s t) = ids s"
  by (simp add: with_own_vote_def)

lemma ids_tally [simp]: "ids (caught (tally E s t)) = ids s"
  unfolding tally_def Let_def
  by (auto intro!: ids_then)

lemma ids_keep_vote [simp]: "ids (caught (keep_vote E s v key d)) = ids s"
  by (simp add: keep_vote_def split: option.splits)

lemma ids_on_TRANSACTION [simp]: "ids (caught (on_TRANSACTION E s key d)) = ids s"
  unfolding on_TRANSACTION_def
  by (auto intro!: ids_merkle_k ids_then split: option.splits)

lemma ids_on_NEW_TRANSACTION [simp]: "ids (caught (on_NEW_TRANSACTION E s d)) = ids s"
  unfolding on_NEW_TRANSACTION_def Let_def
  by (auto intro!: ids_merkle_k split: option.splits)

lemma ids_keep_chain [simp]: "ids (keep_chain s key d) = ids s"
  by (simp add: keep_chain_def)

lemma ids_adopt_chain [simp]: "ids (caught (adopt_chain E s)) = ids s"
  using ids_createAccState[of E "s\<lparr>accounts := Map.empty, wantChain := False, transactions := the (parse E (the (entry_transactions (the (find (\<lambda>item. entry_root item = max_root (consensus s)) (map snd (consensus s)))))))\<rparr>"]
  by (auto simp: adopt_chain_def Let_def split: option.splits)

lemma ids_on_CHAIN [simp]: "ids (caught (on_CHAIN E s key d for)) = ids s"
  by (simp add: on_CHAIN_def Let_def)

lemma ids_on_timeout [simp]: "ids (caught (on_timeout E s)) = ids s"
  unfolding on_timeout_def Let_def
  by (auto intro!: ids_merkle_k split: option.splits)

lemma ids_sendTransaction [simp]: "ids (sendTransaction E s t) = ids s"
  by (simp add: sendTransaction_def)

lemma ids_connectSocket [simp]: "ids (connectSocket s) = ids s"
  by (simp add: connectSocket_def)

lemma ids_note_message [simp]: "ids (note_message s k m) = ids s"
  by (simp add: note_message_def Let_def)


lemma self_excluded_ids: "ids s' = ids s \<Longrightarrow> self_excluded s' = self_excluded s"
  by (simp add: ids_def self_excluded_def)

lemma dispatch_self_excluded:
  assumes "self_excluded s"
  shows "self_excluded (caught (dispatch E s key p)) \<and> publicKey (caught (dispatch E s key p)) = publicKey s"
proof (cases p)
  case GET_CHAIN
  have "ids (caught (dispatch E s key p)) = ids s"
    unfolding GET_CHAIN dispatch.simps by (rule ids_merkle_k) simp_all
  with assms show ?thesis by (simp add: ids_def self_excluded_def)
next
  case (CHAIN d dest)
  have "ids (caught (dispatch E s key p)) = ids s"
    unfolding CHAIN by simp
  with assms show ?thesis by (simp add: ids_def self_excluded_def)
next
  case VALIDATORS
  with assms show ?thesis by (simp add: self_excluded_def send_def)
next
  case (VALIDATOR d)
  with assms show ?thesis by (simp add: self_excluded_def send_def set_add_def)
next
  case (HELLO_VALIDATOR d)
  with assms show ?thesis by (simp add: self_excluded_def set_add_def)
next
  case (NEW_TRANSACTION d)
  have "ids (caught (dispatch E s key p)) = ids s"
    unfolding NEW_TRANSACTION by simp
  with assms show ?thesis by (simp add: ids_def self_excluded_def)
next
  case (TRANSACTION d)
  have "ids (caught (dispatch E s key p)) = ids s"
    unfolding TRANSACTION by simp
  with assms show ?thesis by (simp add: ids_def self_excluded_def)
next
  case UNKNOWN_TYPE
  with assms show ?thesis by simp
qed

lemma handle_self_excluded:
  assumes "self_excluded s"
  shows "self_excluded (handle E s ev) \<and> publicKey (handle E s ev) = publicKey s"
proof (cases ev)
  case Started
  have "ids (handle E s ev) = ids s" unfolding Started by simp
  with assms show ?thesis by (simp add: ids_def self_excluded_def)
next
  case Connected
  have "ids (handle E s ev) = ids s" unfolding Connected by simp
  with assms show ?thesis by (simp add: ids_def self_excluded_def)
next
  case (Message k m)
  have "self_excluded (note_message s k m)" "publicKey (note_message s k m) = publicKey s"
    using assms ids_note_message[of s k m] by (simp_all add: ids_def self_excluded_def)
  with dispatch_self_excluded[of "note_message s k m" E "e_key m" "e_payload m"] assms
  show ?thesis unfolding Message by (simp add: msgHandler_def)
next
  case (Closed k)
  show ?thesis unfolding Closed using assms by (simp add: on_close_def self_excluded_def send_def)
next
  case Timer_fired
  have "ids (handle E s ev) = ids s" unfolding Timer_fired by (simp split: option.splits)
  with assms show ?thesis by (simp add: ids_def self_excluded_def)
next
  case (Submitted t)
  have "ids (handle E s ev) = ids s" unfolding Submitted by simp
  with assms show ?thesis by (simp add: ids_def self_excluded_def)
qed

lemma run_self_excluded:
  "self_excluded s \<Longrightarrow> self_excluded (run s evs) \<and> publicKey (run s evs) = publicKey s"
proof (induction evs arbitrary: s)
  case Nil
  then show ?case by simp
next
  case (Cons ev evs)
  obtain E e where ev: "ev = (E, e)" by (cases ev)
  from handle_self_excluded[OF Cons.prems, of E e]
  have h: "self_excluded (handle E s e)" "publicKey (handle E s e) = publicKey s" by simp_all
  from Cons.IH[OF h(1)] h(2) show ?case unfolding ev by simp
qed


text \<open>What one event does to the validator set.\<close>

lemma dispatch_validators:
  "validators (caught (dispatch E s key p)) = validators s \<or>
   validators (caught (dispatch E s key p)) = [] \<or>
   (\<exists>d. d \<noteq> publicKey s \<and> validators (caught (dispatch E s key p)) = set_add (validators s) d)"
proof (cases p)
  case GET_CHAIN
  have "ids (caught (dispatch E s key p)) = ids s"
    unfolding GET_CHAIN dispatch.simps by (rule ids_merkle_k) simp_all
  then show ?thesis by (simp add: ids_def)
next
  case (CHAIN d dest)
  have "ids (caught (dispatch E s key p)) = ids s"
    unfolding CHAIN by simp
  then show ?thesis by (simp add: ids_def)
next
  case VALIDATORS
  then show ?thesis by (simp add: send_def)
next
  case (VALIDATOR d)
  then show ?thesis by (auto simp: send_def)
next
  case (HELLO_VALIDATOR d)
  then show ?thesis by auto
next
  case (NEW_TRANSACTION d)
  have "ids (caught (dispatch E s key p)) = ids s"
    unfolding NEW_TRANSACTION by simp
  then show ?thesis by (simp add: ids_def)
next
  case (TRANSACTION d)
  have "ids (caught (dispatch E s key p)) = ids s"
    unfolding TRANSACTION by simp
  then show ?thesis by (simp add: ids_def)
next
  case UNKNOWN_TYPE
  then show ?thesis by simp
qed

lemma handle_validators:
  "validators (handle E s ev) = validators s \<or>
   validators (handle E s ev) = [] \<or>
   (\<exists>d. d \<noteq> publicKey s \<and> validators (handle E s ev) = set_add (validators s) d)"
proof (cases ev)
  case Started
  have "ids (handle E s ev) = ids s" unfolding Started by simp
  then show ?thesis by (simp add: ids_def)
next
  case Connected
  have "ids (handle E s ev) = ids s" unfolding Connected by simp
  then show ?thesis by (simp add: ids_def)
next
  case (Message k m)
  have n: "ids (note_message s k m) = ids s" by simp
  show ?thesis
  proof (cases "accepted E s m")
    case False
    then show ?thesis unfolding Message by (simp add: msgHandler_def)
  next
    case True
    with dispatch_validators[of E "note_message s k m" "e_key m" "e_payload m"] n
    show ?thesis unfolding Message by (simp add: msgHandler_def ids_def)
  qed
next
  case (Closed k)
  show ?thesis unfolding Closed by (simp add: on_close_def send_def)
next
  case Timer_fired
  have "ids (handle E s ev) = ids s" unfolding Timer_fired by (simp split: option.splits)
  then show ?thesis by (simp add: ids_def)
next
  case (Submitted t)
  have "ids (handle E s ev) = ids s" unfolding Submitted by simp
  then show ?thesis by (simp add: ids_def)
qed

text \<open>
  Claim C10. The node's own public key is never in its validator set: one event
  leaves the set unchanged, clears it, or adds an announced key that differs from
  the node's own; and after every run of events from the constructor's state the
  key is the constructor's and is not in the set.
\<close>

theorem own_key_never_validator:
  "(validators (handle E s ev) = validators s \<or>
    validators (handle E s ev) = [] \<or>
    (\<exists>d. d \<noteq> publicKey s \<and> validators (handle E s ev) = set_add (validators s) d)) \<and>
   publicKey (run (P2P txs accs pk) evs) = pk \<and>
   pk \<notin> set (validators (run (P2P txs accs pk) evs))"
proof -
  have init: "self_excluded (P2P txs accs pk)" and pk: "publicKey (P2P txs accs pk) = pk"
    by (simp_all add: self_excluded_def P2P_def)
  from run_self_excluded[OF init, of evs] pk
  have "publicKey (run (P2P txs accs pk) evs) = pk"
    and "pk \<notin> set (validators (run (P2P txs accs pk) evs))"
    by (auto simp: self_excluded_def)
  with handle_validators[of E s ev] show ?thesis by blast
qed

section \<open>The vote slot\<close>

lemma transactionValid_cong:
  assumes "accounts s' = accounts s" and "pendingTxs s' = pendingTxs s"
    and "length (transactions s') = length (transactions s)"
  shows "transactionValid E s' t now = transactionValid E s t now"
  unfolding transactionValid_def assms ..

lemma note_message_fields [simp]:
  "vote (note_message s k m) = vote s"
  "pendingTxs (note_message s k m) = pendingTxs s"
  "consensus (note_message s k m) = consensus s"
  "accounts (note_message s k m) = accounts s"
  "transactions (note_message s k m) = transactions s"
  "transactionMerkle (note_message s k m) = transactionMerkle s"
  "validators (note_message s k m) = validators s"
  "publicKey (note_message s k m) = publicKey s"
  "sent (note_message s k m) = sent s"
  "voteTimeout (note_message s k m) = voteTimeout s"
  "wantChain (note_message s k m) = wantChain s"
  by (simp_all add: note_message_def Let_def)

lemma transactionValid_note_message [simp]:
  "transactionValid E (note_message s k m) t now = transactionValid E s t now"
  by (rule transactionValid_cong) simp_all

subsection \<open>Submissions while a vote is live\<close>

text \<open>
  Claim C8. The node holds at most one candidate (\<open>vote\<close> is one optional field).
  While a vote is live, a local \<open>sendTransaction\<close> and an accepted
  \<open>NEW_TRANSACTION\<close> message (which deserializes, and whose \<open>verify\<close> in the log
  of line 324 returns) leave the vote and the votes received as they are and put
  the transaction at the end of \<open>pendingTxs\<close>.
\<close>

theorem submissions_queue_behind_live_vote:
  assumes "vote s = Some v"
  shows "vote (sendTransaction E s t) = Some v \<and>
         consensus (sendTransaction E s t) = consensus s \<and>
         pendingTxs (sendTransaction E s t) = pendingTxs s @ [t] \<and>
         (accepted E s m \<and> e_payload m = NEW_TRANSACTION d \<and>
          deserialize E d = Some t \<and> verify E t = Some b \<longrightarrow>
            vote (msgHandler E s k m) = Some v \<and>
            consensus (msgHandler E s k m) = consensus s \<and>
            pendingTxs (msgHandler E s k m) = pendingTxs s @ [t])"
  using assms
  by (simp add: sendTransaction_def send_def msgHandler_def on_NEW_TRANSACTION_def)

text \<open>On the sample node with \<open>tx_a\<close> as its live vote and \<open>tx_big\<close> pending, a
  local submission of \<open>tx_b\<close> and a \<open>NEW_TRANSACTION\<close> message carrying it.\<close>

theorem submissions_queue_behind_live_vote_witness:
  "vote (sample_node\<lparr>vote := Some tx_a, pendingTxs := [tx_big]\<rparr>) = Some tx_a \<and>
   accepted sample_env (sample_node\<lparr>vote := Some tx_a, pendingTxs := [tx_big]\<rparr>)
     (signed ''m1'' ''K1'' (NEW_TRANSACTION ''K1>K2/sb'')) \<and>
   deserialize sample_env ''K1>K2/sb'' = Some tx_b \<and>
   verify sample_env tx_b = Some True \<and>
   pendingTxs (sendTransaction sample_env
     (sample_node\<lparr>vote := Some tx_a, pendingTxs := [tx_big]\<rparr>) tx_b) = [tx_big, tx_b] \<and>
   vote (msgHandler sample_env (sample_node\<lparr>vote := Some tx_a, pendingTxs := [tx_big]\<rparr>) 0
     (signed ''m1'' ''K1'' (NEW_TRANSACTION ''K1>K2/sb''))) = Some tx_a \<and>
   pendingTxs (msgHandler sample_env (sample_node\<lparr>vote := Some tx_a, pendingTxs := [tx_big]\<rparr>) 0
     (signed ''m1'' ''K1'' (NEW_TRANSACTION ''K1>K2/sb''))) = [tx_big, tx_b]"
proof -
  have h: "vote (sample_node\<lparr>vote := Some tx_a, pendingTxs := [tx_big]\<rparr>) = Some tx_a"
    by simp
  have a: "accepted sample_env (sample_node\<lparr>vote := Some tx_a, pendingTxs := [tx_big]\<rparr>)
     (signed ''m1'' ''K1'' (NEW_TRANSACTION ''K1>K2/sb''))"
    by (simp add: accepted_def sample_defs)
  have d: "deserialize sample_env ''K1>K2/sb'' = Some tx_b"
    by (simp add: sample_defs)
  have v: "verify sample_env tx_b = Some True"
    by (simp add: sample_defs)
  have p: "e_payload (signed ''m1'' ''K1'' (NEW_TRANSACTION ''K1>K2/sb'')) =
      NEW_TRANSACTION ''K1>K2/sb''"
    by (simp add: signed_def)
  from submissions_queue_behind_live_vote[OF h, of sample_env tx_b
      "signed ''m1'' ''K1'' (NEW_TRANSACTION ''K1>K2/sb'')" "''K1>K2/sb''" True 0]
    h a d v p
  show ?thesis by simp
qed

subsection \<open>Opening a slot\<close>

text \<open>
  Claim C4, as the code has it. On a node without a live vote, an accepted
  \<open>NEW_TRANSACTION\<close> message carrying \<open>T\<close> sets \<open>vote = T\<close>, clears \<open>consensus\<close>,
  arms the timer and broadcasts \<open>TRANSACTION\<close> with the serialized \<open>T\<close>, the
  boolean \<open>transactionValid(T, true)[0]\<close> and the local root. A local
  \<open>sendTransaction\<close> sets the vote, clears \<open>consensus\<close> and arms the timer too, but
  what it broadcasts is \<open>NEW_TRANSACTION\<close> with the serialized \<open>T\<close>: the submitter
  sends no \<open>TRANSACTION\<close> message.
\<close>

theorem idle_to_voting:
  assumes "vote s = None"
  shows "vote (sendTransaction E s t) = Some t \<and>
         consensus (sendTransaction E s t) = [] \<and>
         voteTimeout (sendTransaction E s t) =
           Some \<lparr>armed = True, lastValidators = validators s\<rparr> \<and>
         sent (sendTransaction E s t) = sent s @ [NEW_TRANSACTION (serialize E t)] \<and>
         (accepted E s m \<and> e_payload m = NEW_TRANSACTION d \<and>
          deserialize E d = Some t \<and> verify E t = Some b \<and>
          getRoot E (transactionMerkle s) = Root r \<longrightarrow>
            vote (msgHandler E s k m) = Some t \<and>
            consensus (msgHandler E s k m) = [] \<and>
            voteTimeout (msgHandler E s k m) =
              Some \<lparr>armed = True, lastValidators = validators s\<rparr> \<and>
            sent (msgHandler E s k m) = sent s @
              [TRANSACTION \<lparr>vd_transaction = serialize E t,
                            vd_valid = JBool (fst (transactionValid E s t True)),
                            vd_root = Some r\<rparr>])"
  using assms
  by (simp add: sendTransaction_def send_def msgHandler_def on_NEW_TRANSACTION_def
      getVoteTimeout_def merkle_def)

theorem idle_to_voting_witness:
  "vote sample_node = None \<and>
   accepted sample_env sample_node (signed ''m1'' ''K1'' (NEW_TRANSACTION ''K1>K2/sa'')) \<and>
   deserialize sample_env ''K1>K2/sa'' = Some tx_a \<and>
   verify sample_env tx_a = Some True \<and>
   getRoot sample_env (transactionMerkle sample_node) = Root ''#0'' \<and>
   sent (sendTransaction sample_env sample_node tx_a) = [NEW_TRANSACTION ''K1>K2/sa''] \<and>
   vote (msgHandler sample_env sample_node 0
     (signed ''m1'' ''K1'' (NEW_TRANSACTION ''K1>K2/sa''))) = Some tx_a \<and>
   sent (msgHandler sample_env sample_node 0
     (signed ''m1'' ''K1'' (NEW_TRANSACTION ''K1>K2/sa''))) =
     [TRANSACTION \<lparr>vd_transaction = ''K1>K2/sa'', vd_valid = JBool True,
                   vd_root = Some ''#0''\<rparr>]"
proof -
  have h: "vote sample_node = None"
    by (simp add: sample_defs)
  have a: "accepted sample_env sample_node (signed ''m1'' ''K1'' (NEW_TRANSACTION ''K1>K2/sa''))"
    by (simp add: accepted_def sample_defs)
  have d: "deserialize sample_env ''K1>K2/sa'' = Some tx_a"
    by (simp add: sample_defs)
  have v: "verify sample_env tx_a = Some True"
    by (simp add: sample_defs)
  have r: "getRoot sample_env (transactionMerkle sample_node) = Root ''#0''"
    by (simp add: getRoot_def sample_defs)
  have p: "e_payload (signed ''m1'' ''K1'' (NEW_TRANSACTION ''K1>K2/sa'')) =
      NEW_TRANSACTION ''K1>K2/sa''"
    by (simp add: signed_def)
  have tv: "transactionValid sample_env sample_node tx_a True = (True, [])"
    by (simp add: transactionValid_def timestampRange_def maxVoteTime_def fee_def sample_defs)
  have s0: "sent sample_node = []" and se: "serialize sample_env tx_a = ''K1>K2/sa''"
    by (simp_all add: sample_defs)
  from idle_to_voting[OF h, of sample_env tx_a
      "signed ''m1'' ''K1'' (NEW_TRANSACTION ''K1>K2/sa'')" "''K1>K2/sa''" True "''#0''" 0]
    h a d v r p tv s0 se
  show ?thesis by simp
qed

text \<open>The claim as stated fails for the local submission: on the idle sample node
  \<open>sendTransaction\<close> opens the slot and no \<open>TRANSACTION\<close> message is among what it
  sends.\<close>

theorem sendTransaction_sends_no_vote:
  "vote sample_node = None \<and>
   vote (sendTransaction sample_env sample_node tx_a) = Some tx_a \<and>
   \<not> list_ex is_TRANSACTION (sent (sendTransaction sample_env sample_node tx_a))"
  by (simp add: sample_defs handler_defs)

subsection \<open>A rejected slot\<close>

lemma ledger_updates [simp]:
  "ledger (s\<lparr>consensus := c\<rparr>) = ledger s"
  "ledger (s\<lparr>vote := v\<rparr>) = ledger s"
  "ledger (s\<lparr>pendingTxs := p\<rparr>) = ledger s"
  "ledger (s\<lparr>voteTimeout := tm\<rparr>) = ledger s"
  "ledger (s\<lparr>sent := y\<rparr>) = ledger s"
  "ledger (s\<lparr>buf := b\<rparr>) = ledger s"
  "ledger (s\<lparr>relayed := r\<rparr>) = ledger s"
  "ledger (s\<lparr>sockets := ss\<rparr>) = ledger s"
  by (simp_all add: ledger_def)

lemma ledger_note_message [simp]: "ledger (note_message s k m) = ledger s"
  by (simp add: ledger_def)

lemma ledger_close_out [simp]: "ledger (caught (close_out E s)) = ledger s"
  by (simp add: close_out_def close_timer_def Let_def merkle_def send_def
      split: list.splits option.splits root.splits)

lemma ledger_keep_vote [simp]: "ledger (caught (keep_vote E s v key d)) = ledger s"
  by (simp add: keep_vote_def split: option.splits)

lemma ledger_rejected_tally:
  assumes "\<not> tally_result (votes_of (with_own_vote E s v))"
  shows "ledger (caught (tally E s v)) = ledger s"
  using assms by (simp add: tally_def Let_def with_own_vote_def)

text \<open>
  Claim C6. When the votes at tally time, the node's own included, do not hold
  strictly more \<open>true\<close> than \<open>false\<close>, handling the \<open>TRANSACTION\<close> message
  leaves the chain, every account (balance, stake and nonce: nobody is slashed)
  and the Merkle tree as they were. \<open>s1\<close> is the state at line 348, after the
  sender's vote was kept.
\<close>

theorem rejected_slot_changes_nothing:
  assumes "e_payload m = TRANSACTION d" and "vote s = Some v"
    and "s1 = caught (keep_vote E (note_message s k m) v (e_key m) d)"
    and "\<not> tally_result (votes_of (with_own_vote E s1 v))"
  shows "transactions (msgHandler E s k m) = transactions s \<and>
         accounts (msgHandler E s k m) = accounts s \<and>
         transactionMerkle (msgHandler E s k m) = transactionMerkle s"
proof -
  have "ledger (msgHandler E s k m) = ledger s"
  proof (cases "keep_vote E (note_message s k m) v (e_key m) d")
    case (Ok s')
    with assms(3) have s': "s' = s1" by simp
    from ledger_keep_vote[of E "note_message s k m" v "e_key m" d] Ok s'
    have l1: "ledger s1 = ledger s" by simp
    from ledger_rejected_tally[OF assms(4)] l1
    have "ledger (caught (tally E s1 v)) = ledger s" by simp
    with assms(1,2) Ok s' l1 show ?thesis
      by (simp add: msgHandler_def on_TRANSACTION_def merkle_def split: root.splits)
  next
    case (Throw s')
    with ledger_keep_vote[of E "note_message s k m" v "e_key m" d]
    have "ledger s' = ledger s" by simp
    with assms(1,2) Throw show ?thesis
      by (simp add: msgHandler_def on_TRANSACTION_def merkle_def split: root.splits)
  qed
  then show ?thesis by (simp add: ledger_def)
qed

text \<open>On the sample node voting on \<open>tx_big\<close>, which asks for more than the balance
  of \<open>K1\<close>: \<open>K1\<close> votes false, the node's own vote is false, the tally runs and
  rejects; the slot is closed, \<open>tx_a\<close> opens the next one, and chain, accounts and
  tree are as before.\<close>

theorem rejected_slot_changes_nothing_witness:
  "e_payload (vote_msg tx_big False) = TRANSACTION (ballot tx_big False) \<and>
   vote (voting_on tx_big) = Some tx_big \<and>
   tally_due (caught (keep_vote sample_env (note_message (voting_on tx_big) 0 (vote_msg tx_big False))
       tx_big (e_key (vote_msg tx_big False)) (ballot tx_big False))) \<and>
   votes_of (with_own_vote sample_env
     (caught (keep_vote sample_env (note_message (voting_on tx_big) 0 (vote_msg tx_big False))
       tx_big (e_key (vote_msg tx_big False)) (ballot tx_big False))) tx_big) =
     [JBool False, JBool False] \<and>
   vote (msgHandler sample_env (voting_on tx_big) 0 (vote_msg tx_big False)) = Some tx_a \<and>
   transactions (msgHandler sample_env (voting_on tx_big) 0 (vote_msg tx_big False)) = [] \<and>
   accounts (msgHandler sample_env (voting_on tx_big) 0 (vote_msg tx_big False)) =
     [''K1'' \<mapsto> staked] \<and>
   transactionMerkle (msgHandler sample_env (voting_on tx_big) 0 (vote_msg tx_big False)) =
     TransactionMerkle"
proof -
  define s1 where "s1 = caught (keep_vote sample_env
      (note_message (voting_on tx_big) 0 (vote_msg tx_big False))
       tx_big (e_key (vote_msg tx_big False)) (ballot tx_big False))"
  have p: "e_payload (vote_msg tx_big False) = TRANSACTION (ballot tx_big False)"
    by (simp add: vote_msg_def signed_def)
  have v: "vote (voting_on tx_big) = Some tx_big"
    by (simp add: voting_on_def)
  have c: "consensus s1 = [(''K1'', Vote_entry (ballot tx_big False))]"
    and vs: "validators s1 = [''K1'']" and pk: "publicKey s1 = ''K0''"
    unfolding s1_def by (simp_all add: sample_defs2 handler_defs)
  have due: "tally_due s1"
    by (simp add: tally_due_def c vs)
  have votes: "votes_of (with_own_vote sample_env s1 tx_big) = [JBool False, JBool False]"
    unfolding s1_def by (simp add: sample_defs2 handler_defs)
  then have r: "\<not> tally_result (votes_of (with_own_vote sample_env s1 tx_big))"
    by (simp add: tally_result_def)
  have n: "vote (msgHandler sample_env (voting_on tx_big) 0 (vote_msg tx_big False)) = Some tx_a"
    by (simp add: sample_defs2 handler_defs)
  have before: "transactions (voting_on tx_big) = []"
    "accounts (voting_on tx_big) = [''K1'' \<mapsto> staked]"
    "transactionMerkle (voting_on tx_big) = TransactionMerkle"
    by (simp_all add: voting_on_def sample_node_def P2P_def)
  from rejected_slot_changes_nothing[OF p v s1_def r] p v due votes n before
  show ?thesis unfolding s1_def by simp
qed


subsection \<open>Closing a slot\<close>

text \<open>A tree built by \<open>add\<close> has a root: \<open>getRoot\<close> returns a string.\<close>

lemma getRoot_Root: "merkle_inv t \<Longrightarrow> \<exists>r. getRoot E t = Root r"
  by (cases "last (levels t)")
     (auto simp: getRoot_def merkle_inv_def fold_nodes.simps)

text \<open>What the close-out leaves, when the root can be computed.\<close>

lemma close_out_result:
  assumes "getRoot E (transactionMerkle s) = Root r"
  shows "\<exists>s'. close_out E s = Ok s' \<and>
           voteTimeout s' = map_option (\<lambda>tm. tm\<lparr>armed := False\<rparr>) (voteTimeout s) \<and>
           (case pendingTxs s of
              [] \<Rightarrow> vote s' = None \<and> pendingTxs s' = [] \<and> sent s' = sent s
            | tx # rest \<Rightarrow>
                vote s' = Some tx \<and> pendingTxs s' = rest \<and> consensus s' = [] \<and>
                (\<exists>d. sent s' = sent s @ [TRANSACTION d] \<and>
                      vd_transaction d = serialize E tx \<and> vd_root d = Some r))"
  using assms
  by (auto simp: close_out_def close_timer_def Let_def merkle_def send_def
      split: list.splits option.splits)

text \<open>The commit throws exactly at the debit of line 357, when the sender has no
  account and is not the literal \<open>GENESIS\<close> inside the genesis window.\<close>

lemma commit_rewards_Ok:
  "set vs \<subseteq> fst ` set (consensus s) \<Longrightarrow>
   \<exists>s'. commit_rewards s n vs = Ok s' \<and> dom (accounts s') = dom (accounts s) \<and>
        transactionMerkle s' = transactionMerkle s"
proof (induction vs arbitrary: s)
  case Nil
  show ?case by simp
next
  case (Cons v vs)
  from Cons.prems have v: "map_of (consensus s) v \<noteq> None" and vs: "set vs \<subseteq> fst ` set (consensus s)"
    by (auto simp: map_of_eq_None_iff)
  show ?case
  proof (cases "accounts s v")
    case None
    with Cons.IH[OF vs] show ?thesis by simp
  next
    case (Some a)
    from v obtain e where e: "map_of (consensus s) v = Some e" by auto
    define s1 where "s1 = s\<lparr>accounts := (accounts s)(v \<mapsto>
                      (if loose_neq_true (entry_valid e) then a\<lparr>stake := stake a - fine\<rparr>
                       else a\<lparr>balance := balance a + (fee div int n + 1)\<rparr>))\<rparr>"
    have "set vs \<subseteq> fst ` set (consensus s1)" using vs by (simp add: s1_def)
    from Cons.IH[OF this] obtain s' where
      "commit_rewards s1 n vs = Ok s'" "dom (accounts s') = dom (accounts s1)"
      "transactionMerkle s' = transactionMerkle s1" by blast
    moreover have "dom (accounts s1) = dom (accounts s)" "transactionMerkle s1 = transactionMerkle s"
      using Some by (auto simp: s1_def)
    ultimately show ?thesis using Some e by (simp add: s1_def)
  qed
qed

lemma commit_debit_Ok:
  assumes "accounts s (t_from t) \<noteq> None \<or> (t_from t = ''GENESIS'' \<and> length (transactions s) < 6)"
  shows "\<exists>s'. commit_debit s t = Ok s' \<and> t_from t \<in> dom (accounts s') \<and>
           session s' = session s \<and> transactions s' = transactions s \<and>
           transactionMerkle s' = transactionMerkle s"
  using assms
  by (auto simp: commit_debit_def update_account_def ensure_def session_def split: option.splits)

lemma commit_debit_Throw:
  assumes "accounts s (t_from t) = None" and "\<not> (t_from t = ''GENESIS'' \<and> length (transactions s) < 6)"
  shows "commit_debit s t = Throw s"
  using assms by (simp add: commit_debit_def update_account_def)

lemma credit_Ok:
  assumes "t_from t \<in> dom (accounts s)"
  shows "\<exists>s'. credit s t = Ok s' \<and> t_from t \<in> dom (accounts s') \<and>
           session s' = session s \<and> transactions s' = transactions s \<and>
           transactionMerkle s' = transactionMerkle s"
  using assms
  by (auto simp: credit_def update_account_def ensure_def session_def split: option.splits)

lemma commit_validators_Ok:
  assumes "t_from t \<in> dom (accounts s)"
    and "set voters \<subseteq> fst ` set (consensus s)" and "publicKey s \<in> fst ` set (consensus s)"
  shows "\<exists>s'. commit_validators s t voters = Ok s' \<and> transactionMerkle s' = transactionMerkle s"
proof (cases "\<not> (t_data t = Some ''GENESIS'' \<and> length (transactions s) < 6)")
  case False
  then show ?thesis by (simp add: commit_validators_def)
next
  case True
  from assms(2,3) have "set (voters @ [publicKey s]) \<subseteq> fst ` set (consensus s)" by simp
  from commit_rewards_Ok[OF this, of "length (voters @ [publicKey s])"]
  obtain s1 where s1: "commit_rewards s (length (voters @ [publicKey s])) (voters @ [publicKey s]) = Ok s1"
    and d: "dom (accounts s1) = dom (accounts s)"
    and m: "transactionMerkle s1 = transactionMerkle s" by blast
  from assms(1) d obtain a where "accounts s1 (t_from t) = Some a" by auto
  with True s1 m show ?thesis
    by (simp add: commit_validators_def Let_def update_account_def)
qed

lemma commit_Ok:
  assumes "accounts s (t_from t) \<noteq> None \<or> (t_from t = ''GENESIS'' \<and> length (transactions s) < 6)"
    and "set voters \<subseteq> fst ` set (consensus s)" and "publicKey s \<in> fst ` set (consensus s)"
  shows "\<exists>s'. commit E s t voters = Ok s' \<and>
           transactionMerkle s' = add E (transactionMerkle s) (serialize E t)"
proof -
  from commit_debit_Ok[OF assms(1)] obtain s1 where
    s1: "commit_debit s t = Ok s1" "t_from t \<in> dom (accounts s1)" "session s1 = session s"
      "transactionMerkle s1 = transactionMerkle s" by blast
  from credit_Ok[OF s1(2)] obtain s2 where
    s2: "credit s1 t = Ok s2" "t_from t \<in> dom (accounts s2)" "session s2 = session s1"
      "transactionMerkle s2 = transactionMerkle s1" by blast
  from s1(3) s2(3) have "consensus s2 = consensus s" "publicKey s2 = publicKey s"
    by (simp_all add: session_def)
  with assms(2,3) have "set voters \<subseteq> fst ` set (consensus s2)" "publicKey s2 \<in> fst ` set (consensus s2)"
    by simp_all
  from commit_validators_Ok[OF s2(2) this] obtain s3 where
    "commit_validators s2 t voters = Ok s3" "transactionMerkle s3 = transactionMerkle s2"
    by blast
  with s1(1,4) s2(1,4) show ?thesis by (simp add: commit_def)
qed

lemma with_own_vote_keys:
  "set (map fst (consensus s)) \<subseteq> fst ` set (consensus (with_own_vote E s t))"
  "publicKey (with_own_vote E s t) \<in> fst ` set (consensus (with_own_vote E s t))"
  by (auto simp: with_own_vote_def dom_update)

text \<open>
  The close-out of lines 384 to 394 after a tally: whenever the slot is rejected,
  or it is committed and the debit of line 357 finds the sender's account (or the
  sender is \<open>GENESIS\<close> inside the window), the tally returns with the timer
  closed and either no vote and an empty queue, or the head of the queue as the
  vote, \<open>consensus\<close> cleared and its \<open>TRANSACTION\<close> message sent.
\<close>

lemma tally_closes_slot:
  assumes "merkle_inv (transactionMerkle s)"
    and "\<not> tally_result (votes_of (with_own_vote E s v)) \<or>
         accounts s (t_from v) \<noteq> None \<or>
         (t_from v = ''GENESIS'' \<and> length (transactions s) < 6)"
  shows "\<exists>s'. tally E s v = Ok s' \<and>
           voteTimeout s' = map_option (\<lambda>tm. tm\<lparr>armed := False\<rparr>) (voteTimeout s) \<and>
           (case pendingTxs s of
              [] \<Rightarrow> vote s' = None \<and> pendingTxs s' = [] \<and> sent s' = sent s
            | tx # rest \<Rightarrow>
                vote s' = Some tx \<and> pendingTxs s' = rest \<and> consensus s' = [] \<and>
                (\<exists>d. sent s' = sent s @ [TRANSACTION d] \<and>
                      vd_transaction d = serialize E tx))"
proof -
  define s1 where "s1 = with_own_vote E s v"
  have s1: "voteTimeout s1 = voteTimeout s" "pendingTxs s1 = pendingTxs s" "sent s1 = sent s"
    "transactionMerkle s1 = transactionMerkle s" "accounts s1 = accounts s"
    "transactions s1 = transactions s"
    by (simp_all add: s1_def with_own_vote_def)
  have "\<exists>s2. (if tally_result (votes_of s1) then commit E s1 v (map fst (consensus s)) else Ok s1)
            = Ok s2 \<and> voteTimeout s2 = voteTimeout s \<and> pendingTxs s2 = pendingTxs s \<and>
            sent s2 = sent s \<and> merkle_inv (transactionMerkle s2)"
  proof (cases "tally_result (votes_of s1)")
    case False
    with s1 assms(1) show ?thesis by simp
  next
    case True
    with assms(2) s1 have
      "accounts s1 (t_from v) \<noteq> None \<or> (t_from v = ''GENESIS'' \<and> length (transactions s1) < 6)"
      by (simp add: s1_def)
    from commit_Ok[OF this, of "map fst (consensus s)" E]
      with_own_vote_keys[where s=s and E=E and t=v]
    obtain s2 where c: "commit E s1 v (map fst (consensus s)) = Ok s2"
      and m: "transactionMerkle s2 = add E (transactionMerkle s1) (serialize E v)"
      by (auto simp: s1_def)
    from session_commit[of E s1 v "map fst (consensus s)"] c
    have "session s2 = session s1" by simp
    with s1 have f: "voteTimeout s2 = voteTimeout s" "pendingTxs s2 = pendingTxs s" "sent s2 = sent s"
      by (simp_all add: session_def)
    have "merkle_inv (transactionMerkle s2)"
      using m s1(4) assms(1) by (simp add: merkle_inv_add)
    with True c f show ?thesis by simp
  qed
  then obtain s2 where s2: "(if tally_result (votes_of s1) then commit E s1 v (map fst (consensus s))
       else Ok s1) = Ok s2" "voteTimeout s2 = voteTimeout s" "pendingTxs s2 = pendingTxs s"
      "sent s2 = sent s" "merkle_inv (transactionMerkle s2)"
    by blast
  from getRoot_Root[OF s2(5), of E] obtain r where "getRoot E (transactionMerkle s2) = Root r" ..
  from close_out_result[OF this] obtain s' where
    s': "close_out E s2 = Ok s'"
      "voteTimeout s' = map_option (\<lambda>tm. tm\<lparr>armed := False\<rparr>) (voteTimeout s2)"
      "case pendingTxs s2 of
              [] \<Rightarrow> vote s' = None \<and> pendingTxs s' = [] \<and> sent s' = sent s2
            | tx # rest \<Rightarrow>
                vote s' = Some tx \<and> pendingTxs s' = rest \<and> consensus s' = [] \<and>
                (\<exists>d. sent s' = sent s2 @ [TRANSACTION d] \<and>
                      vd_transaction d = serialize E tx \<and> vd_root d = Some r)"
    by blast
  have "tally E s v = Ok s'"
    using s2(1) s'(1) by (simp add: tally_def Let_def s1_def[symmetric])
  moreover from s'(3) s2(3,4) have "case pendingTxs s of
              [] \<Rightarrow> vote s' = None \<and> pendingTxs s' = [] \<and> sent s' = sent s
            | tx # rest \<Rightarrow>
                vote s' = Some tx \<and> pendingTxs s' = rest \<and> consensus s' = [] \<and>
                (\<exists>d. sent s' = sent s @ [TRANSACTION d] \<and>
                      vd_transaction d = serialize E tx)"
    by (cases "pendingTxs s") auto
  ultimately show ?thesis using s'(2) s2(2) by simp
qed

text \<open>
  Claim C5 says that this close-out happens after every tally. It does not when
  the commit throws: line 357 debits \<open>accounts[from]\<close> before line 358 creates it
  (the replay creates it first, lines 167 and 168), the TypeError leaves the
  handler through its \<open>catch\<close>, and lines 384 to 394 are not reached. On the
  funded node in a slot on \<open>tx_orphan\<close>, whose sender \<open>X\<close> has no account and whose
  body is \<open>GENESIS\<close> while the chain holds five records, with \<open>tx_a\<close> pending and
  the timer armed: \<open>K1\<close> has voted true, \<open>K2\<close> votes true, the tally is due, the
  node's own vote is true and the vote agrees; the commit throws at the debit,
  and the vote, the timer and the queue stay as they were.
\<close>

theorem tally_throw_leaves_slot_open:
  "tally_due (caught (keep_vote sample_env (note_message stuck_slot 0 stuck_msg) tx_orphan
      ''K2'' (funded_ballot tx_orphan))) \<and>
   votes_of (msgHandler sample_env stuck_slot 0 stuck_msg) =
     [JBool True, JBool True, JBool True] \<and>
   commit_debit (stuck_slot\<lparr>consensus := consensus (msgHandler sample_env stuck_slot 0 stuck_msg)\<rparr>)
     tx_orphan =
     Throw (stuck_slot\<lparr>consensus := consensus (msgHandler sample_env stuck_slot 0 stuck_msg)\<rparr>) \<and>
   vote (msgHandler sample_env stuck_slot 0 stuck_msg) = Some tx_orphan \<and>
   voteTimeout (msgHandler sample_env stuck_slot 0 stuck_msg) =
     Some \<lparr>armed = True, lastValidators = [''K1'', ''K2'']\<rparr> \<and>
   pendingTxs (msgHandler sample_env stuck_slot 0 stuck_msg) = [tx_a] \<and>
   sent (msgHandler sample_env stuck_slot 0 stuck_msg) = [] \<and>
   transactions (msgHandler sample_env stuck_slot 0 stuck_msg) = funded_chain"
  by (simp add: stuck_slot_def stuck_msg_def funded_defs sample_defs handler_defs signed_def
      fold_nodes.simps)

section \<open>Chain sync\<close>

lemma count_roots_max:
  assumes "\<forall>r. rc r \<le> rc mr"
  shows "rc r + count_list xs r \<le>
         rc (count_roots rc mr xs) + count_list xs (count_roots rc mr xs)"
  using assms
proof (induction xs arbitrary: rc mr)
  case Nil
  then show ?case by simp
next
  case (Cons x xs)
  define rc' where "rc' = rc(x := rc x + 1)"
  define mr' where "mr' = (if rc x + 1 > rc' mr then x else mr)"
  have inv: "\<forall>r. rc' r \<le> rc' mr'"
  proof
    fix r
    from Cons.prems have "rc r \<le> rc mr" "rc x \<le> rc mr" by simp_all
    then show "rc' r \<le> rc' mr'"
      by (auto simp: rc'_def mr'_def)
  qed
  have step: "count_roots rc mr (x # xs) = count_roots rc' mr' xs"
    by (simp add: Let_def rc'_def mr'_def)
  have "rc q + count_list (x # xs) q = rc' q + count_list xs q" for q
    by (simp add: rc'_def)
  with Cons.IH[OF inv] step show ?case by simp
qed

lemma max_root_plurality: "reports r cons \<le> reports (max_root cons) cons"
  using count_roots_max[of "\<lambda>r. 0" "Some []" r "map (entry_root \<circ> snd) cons"]
  by (simp add: reports_def max_root_def)

text \<open>
  Claim C9. For a \<open>CHAIN\<close> message addressed to the node while it wants a chain,
  with \<open>s1\<close> the state after the response was kept (line 277): once \<open>consensus\<close>
  holds at least \<open>|V| - 1\<close> entries, the root of the entry \<open>item\<close> that the
  handler picks is reported by at least as many entries as any other root, and,
  \<open>txs\<close> being the list that \<open>item\<close> carries, the node adopts \<open>txs\<close> exactly
  when it is at least as long as its own chain: it then empties \<open>accounts\<close>, stops
  wanting a chain, takes \<open>txs\<close> as its chain and replays it with
  \<open>createAccState\<close> (for an empty \<open>txs\<close> line 295 leaves early, and the replay of
  no record changes nothing); otherwise it keeps chain and accounts.
\<close>

theorem chain_sync_adopts_plurality:
  assumes "dest = Some (publicKey s)" and "wantChain s"
    and "s1 = keep_chain s key d"
    and "int (length (consensus s1)) \<ge> int (length (validators s)) - 1"
    and "find (\<lambda>item. entry_root item = max_root (consensus s1)) (map snd (consensus s1)) =
           Some item"
    and "entry_transactions item = Some text" and "parse E text = Some txs"
  shows "(\<forall>r. reports r (consensus s1) \<le> reports (entry_root item) (consensus s1)) \<and>
         item \<in> snd ` set (consensus s1) \<and>
         (length (transactions s) \<le> length txs \<longrightarrow>
            on_CHAIN E s key d dest =
              createAccState E
                (s1\<lparr>accounts := Map.empty, wantChain := False, transactions := txs\<rparr>) txs) \<and>
         (length txs < length (transactions s) \<longrightarrow> on_CHAIN E s key d dest = Ok s1)"
proof -
  from assms(5) have root: "entry_root item = max_root (consensus s1)"
    and mem: "item \<in> snd ` set (consensus s1)"
    by (auto simp: find_Some_iff)
  have f: "validators s1 = validators s" "transactions s1 = transactions s"
    by (simp_all add: assms(3) keep_chain_def)
  have none: "createAccState E z [] = Ok z" for z
    by (simp add: createAccState_def)
  from assms(1,2,4,5,6,7) f show ?thesis
    by (auto simp: on_CHAIN_def adopt_chain_def Let_def root max_root_plurality mem none
        simp flip: assms(3))
qed

text \<open>The sample sync: with the answer of \<open>K3\<close> three responses are kept, two
  report \<open>R\<close> and one \<open>S\<close>; the chain of two records is adopted and replayed from
  empty accounts.\<close>

theorem chain_sync_adopts_plurality_witness:
  "wantChain syncing \<and>
   int (length (consensus (keep_chain syncing ''K3'' long_chain))) \<ge>
     int (length (validators syncing)) - 1 \<and>
   find (\<lambda>item. entry_root item = max_root (consensus (keep_chain syncing ''K3'' long_chain)))
     (map snd (consensus (keep_chain syncing ''K3'' long_chain))) = Some (Chain_entry long_chain) \<and>
   parse sample_env (cd_transactions long_chain) = Some [unvoted tx_mint, unvoted tx_a] \<and>
   reports (Some ''S'') (consensus (keep_chain syncing ''K3'' long_chain)) = 1 \<and>
   reports (Some ''R'') (consensus (keep_chain syncing ''K3'' long_chain)) = 2 \<and>
   transactions (caught (on_CHAIN sample_env syncing ''K3'' long_chain (Some ''K0''))) =
     [unvoted tx_mint, unvoted tx_a] \<and>
   accounts (caught (on_CHAIN sample_env syncing ''K3'' long_chain (Some ''K0''))) =
     [''K1'' \<mapsto> \<lparr>balance = 4000, stake = 0, nonce = 0\<rparr>,
      ''K2'' \<mapsto> \<lparr>balance = 900, stake = 0, nonce = 0\<rparr>]"
proof -
  define s1 where "s1 = keep_chain syncing ''K3'' long_chain"
  define s2 where "s2 = s1\<lparr>accounts := Map.empty, wantChain := False,
      transactions := [unvoted tx_mint, unvoted tx_a]\<rparr>"
  have c: "consensus s1 = [(''K1'', Chain_entry long_chain), (''K2'', Chain_entry short_chain),
      (''K3'', Chain_entry long_chain)]"
    by (simp add: s1_def sync_defs sample_defs)
  have d: "Some ''K0'' = Some (publicKey syncing)" and w: "wantChain syncing"
    and n: "int (length (consensus s1)) \<ge> int (length (validators syncing)) - 1"
    and l: "length (transactions syncing) = 0"
    by (simp_all add: c) (simp_all add: syncing_def P2P_def)
  have m: "max_root (consensus s1) = Some ''R''"
    by (simp add: c max_root_def long_chain_def short_chain_def)
  have f: "find (\<lambda>item. entry_root item = max_root (consensus s1)) (map snd (consensus s1)) =
      Some (Chain_entry long_chain)"
    unfolding m unfolding c by (simp add: long_chain_def short_chain_def)
  have t: "entry_transactions (Chain_entry long_chain) = Some (cd_transactions long_chain)"
    by simp
  have p: "parse sample_env (cd_transactions long_chain) = Some [unvoted tx_mint, unvoted tx_a]"
    by (simp add: long_chain_def sample_defs)
  have r: "reports (Some ''S'') (consensus s1) = 1" "reports (Some ''R'') (consensus s1) = 2"
    by (simp_all add: reports_def c long_chain_def short_chain_def)
  have run: "createAccState sample_env s2 [unvoted tx_mint, unvoted tx_a] =
      Ok (s2\<lparr>accounts := [''K1'' \<mapsto> \<lparr>balance = 4000, stake = 0, nonce = 0\<rparr>,
                            ''K2'' \<mapsto> \<lparr>balance = 900, stake = 0, nonce = 0\<rparr>],
             transactionMerkle := \<lparr>leaves = [''GENESIS>K1/GENESIS'', ''K1>K2/a''],
               levels = [[], [''#GENESIS>K1/GENESISK1>K2/a'']]\<rparr>\<rparr>)"
    by (simp add: s2_def s1_def sync_defs sample_defs handler_defs replay_defs Let_def)
  from chain_sync_adopts_plurality[OF d w s1_def n f t p] l
  have "on_CHAIN sample_env syncing ''K3'' long_chain (Some ''K0'') =
      createAccState sample_env s2 [unvoted tx_mint, unvoted tx_a]"
    by (simp add: s2_def)
  with run w n f p r show ?thesis
    by (simp add: s1_def[symmetric] s2_def)
qed


section \<open>The replay\<close>

subsection \<open>The genesis window\<close>

lemma replay_record_counter:
  "replay_record E s i R = Ok (i', s') \<Longrightarrow> i' \<le> Suc i"
  by (cases "replay_debit s i (h_transaction R)";
      cases "credit (caught (replay_debit s i (h_transaction R))) (h_transaction R)";
      cases "replay_validators E (caught (credit (caught (replay_debit s i (h_transaction R))) (h_transaction R))) i R")
     (auto simp: replay_record_def Let_def split: if_splits)

lemma replay_loop_counter:
  "replay_loop E s i txs = Ok (i', s') \<Longrightarrow> i' \<le> i + length txs"
proof (induction txs arbitrary: s i)
  case Nil
  then show ?case by simp
next
  case (Cons R txs)
  from Cons.prems obtain j s1 where r: "replay_record E s i R = Ok (j, s1)"
    and l: "replay_loop E s1 j txs = Ok (i', s')"
    by (cases "replay_record E s i R") auto
  from Cons.IH[OF l] replay_record_counter[OF r] show ?case by simp
qed

lemma replay_loop_append:
  "replay_loop E s i (pre @ post) =
     and_then (replay_loop E s i pre) (\<lambda>(j, s1). replay_loop E s1 j post)"
proof (induction pre arbitrary: s i)
  case Nil
  show ?case by simp
next
  case (Cons R pre)
  show ?case
    by (cases "replay_record E s i R") (auto simp: Cons.IH)
qed

text \<open>The replay of a chain ends with the replay of its last record.\<close>

lemma replay_loop_last:
  assumes "replay_loop E s 0 pre = Ok (i, s1)"
  shows "replay_loop E s 0 (pre @ [R]) = replay_record E s1 i R"
    and "createAccState E s (pre @ [R]) = and_then (replay_record E s1 i R) (\<lambda>(j, z). Ok z)"
proof -
  have one: "replay_loop E s1 i [R] = replay_record E s1 i R"
    by (cases "replay_record E s1 i R") auto
  with assms show "replay_loop E s 0 (pre @ [R]) = replay_record E s1 i R"
    by (simp add: replay_loop_append)
  then show "createAccState E s (pre @ [R]) = and_then (replay_record E s1 i R) (\<lambda>(j, z). Ok z)"
    by (simp add: createAccState_def)
qed

subsection \<open>The steps of the replay of one record\<close>

lemma update_account_Ok:
  "accounts s k = Some a \<Longrightarrow> update_account s k f = Ok (s\<lparr>accounts := (accounts s)(k \<mapsto> f a)\<rparr>)"
  by (simp add: update_account_def)

lemma update_account_threw: "threw (update_account s k f) \<longleftrightarrow> accounts s k = None"
  by (simp add: update_account_def split: option.splits)

lemma update_account_dom:
  "update_account s k f = Ok s' \<Longrightarrow> (accounts s' x = None) = (accounts s x = None)"
  by (cases "x = k") (auto simp: update_account_def split: option.splits)

lemma update_account_other:
  "update_account s k f = Ok s' \<Longrightarrow> x \<noteq> k \<Longrightarrow> accounts s' x = accounts s x"
  by (auto simp: update_account_def split: option.splits)

lemma update_account_balance:
  "update_account s k f = Ok s' \<Longrightarrow> (\<And>a. balance (f a) = balance a) \<Longrightarrow>
   balance_of s' x = balance_of s x"
  by (auto simp: update_account_def balance_of_def split: option.splits)

lemma update_account_tree:
  "update_account s k f = Ok s' \<Longrightarrow> transactionMerkle s' = transactionMerkle s"
  by (auto simp: update_account_def split: option.splits)

lemma replay_rewards_threw:
  "threw (replay_rewards s n vs) \<longleftrightarrow> (\<exists>k \<in> fst ` set vs. accounts s k = None)"
proof (induction vs arbitrary: s)
  case Nil
  show ?case by simp
next
  case (Cons v vs)
  obtain k b where v: "v = (k, b)" by (cases v)
  show ?case
  proof (cases "accounts s k")
    case None
    then show ?thesis by (simp add: v update_account_def)
  next
    case (Some a)
    define f :: "account \<Rightarrow> account" where "f = (\<lambda>a. if loose_eq_false b then a\<lparr>stake := stake a - fine\<rparr>
                else a\<lparr>balance := balance a + (fee div int n + 1)\<rparr>)"
    from Some have u: "update_account s k f = Ok (s\<lparr>accounts := (accounts s)(k \<mapsto> f a)\<rparr>)"
      by (rule update_account_Ok)
    have "threw (replay_rewards s n (v # vs)) =
          threw (replay_rewards (s\<lparr>accounts := (accounts s)(k \<mapsto> f a)\<rparr>) n vs)"
      using u by (simp add: v f_def)
    also have "\<dots> = (\<exists>x \<in> fst ` set vs. ((accounts s)(k \<mapsto> f a)) x = None)"
      by (simp add: Cons.IH)
    also have "\<dots> = (\<exists>x \<in> fst ` set (v # vs). accounts s x = None)"
    proof
      assume "\<exists>x \<in> fst ` set vs. ((accounts s)(k \<mapsto> f a)) x = None"
      then obtain x where "x \<in> fst ` set vs" and "((accounts s)(k \<mapsto> f a)) x = None" ..
      then have "x \<in> fst ` set (v # vs)" and "accounts s x = None"
        by (auto split: if_splits)
      then show "\<exists>x \<in> fst ` set (v # vs). accounts s x = None" ..
    next
      assume "\<exists>x \<in> fst ` set (v # vs). accounts s x = None"
      then obtain x where x: "x \<in> fst ` set (v # vs)" and n: "accounts s x = None" ..
      from n Some have "x \<noteq> k" by auto
      with x n have "x \<in> fst ` set vs" and "((accounts s)(k \<mapsto> f a)) x = None"
        by (auto simp: v)
      then show "\<exists>x \<in> fst ` set vs. ((accounts s)(k \<mapsto> f a)) x = None" ..
    qed
    finally show ?thesis .
  qed
qed

lemma replay_rewards_frame:
  "replay_rewards s n vs = Ok s' \<Longrightarrow>
     (\<forall>x. (accounts s' x = None) = (accounts s x = None)) \<and>
     (\<forall>x. x \<notin> fst ` set vs \<longrightarrow> accounts s' x = accounts s x) \<and>
     transactionMerkle s' = transactionMerkle s"
proof (induction vs arbitrary: s)
  case Nil
  then show ?case by simp
next
  case (Cons v vs)
  obtain k b where v: "v = (k, b)" by (cases v)
  from Cons.prems obtain s1 where
    u: "update_account s k (\<lambda>a. if loose_eq_false b then a\<lparr>stake := stake a - fine\<rparr>
                else a\<lparr>balance := balance a + (fee div int n + 1)\<rparr>) = Ok s1"
    and r: "replay_rewards s1 n vs = Ok s'"
    unfolding v replay_rewards.simps
    by (cases "update_account s k (\<lambda>a. if loose_eq_false b then a\<lparr>stake := stake a - fine\<rparr>
                else a\<lparr>balance := balance a + (fee div int n + 1)\<rparr>)") auto
  from Cons.IH[OF r] update_account_dom[OF u] update_account_other[OF u] update_account_tree[OF u]
  show ?case by (auto simp: v)
qed


lemma threw_then:
  "threw (and_then a f) \<longleftrightarrow> threw a \<or> (\<exists>x. a = Ok x \<and> threw (f x))"
  by (cases a) auto

lemma not_threw: "\<not> threw a \<longleftrightarrow> (\<exists>x. a = Ok x)"
  by (cases a) auto

text \<open>The debit step inside the window.\<close>

lemma replay_debit_window:
  assumes "i < 6"
  shows "\<exists>d. replay_debit s i t = Ok d \<and> transactionMerkle d = transactionMerkle s \<and>
     (\<forall>x. (accounts d x = None) =
            (accounts s x = None \<and> \<not> (x = t_from t \<and> t_from t \<noteq> ''GENESIS''))) \<and>
     (\<forall>x. x \<noteq> t_from t \<longrightarrow> accounts d x = accounts s x) \<and>
     balance_of d (t_from t) =
       (if t_from t = ''GENESIS'' then balance_of s (t_from t)
        else Some (balance (case accounts s (t_from t) of None \<Rightarrow> zero_account | Some a \<Rightarrow> a) -
                   t_amount t))"
  using assms
  by (auto simp: replay_debit_def update_account_def ensure_def balance_of_def
      split: option.splits)

lemma credit_threw:
  "threw (credit s t) \<longleftrightarrow> t_to t = ''stake'' \<and> accounts s (t_from t) = None"
  by (auto simp: credit_def update_account_def ensure_def split: option.splits)

lemma credit_frame:
  assumes "credit s t = Ok c"
  shows "transactionMerkle c = transactionMerkle s"
    and "(accounts c x = None) = (accounts s x = None \<and> \<not> (x = t_to t \<and> t_to t \<noteq> ''stake''))"
    and "t_to t \<noteq> t_from t \<Longrightarrow> balance_of c (t_from t) = balance_of s (t_from t)"
  using assms
  by (auto simp: credit_def update_account_def ensure_def balance_of_def
      split: option.splits if_splits)

lemma replay_validators_threw:
  "threw (replay_validators E s i R) \<longleftrightarrow>
     \<not> (t_data (h_transaction R) = Some ''GENESIS'' \<and> i < 6) \<and>
     h_validatorsRoot R = validatorsRoot E (h_validators R) \<and>
     ((\<exists>k \<in> fst ` set (h_validators R). accounts s k = None) \<or>
      accounts s (t_from (h_transaction R)) = None)"
proof (cases "\<not> (t_data (h_transaction R) = Some ''GENESIS'' \<and> i < 6) \<and>
     h_validatorsRoot R = validatorsRoot E (h_validators R)")
  case False
  then show ?thesis by (auto simp: replay_validators_def Let_def)
next
  case True
  show ?thesis
  proof (cases "replay_rewards s (length (h_validators R)) (h_validators R)")
    case (Throw z)
    then have "threw (replay_rewards s (length (h_validators R)) (h_validators R))" by simp
    then have "\<exists>k \<in> fst ` set (h_validators R). accounts s k = None"
      unfolding replay_rewards_threw .
    with True Throw show ?thesis by (simp add: replay_validators_def Let_def)
  next
    case (Ok z)
    then have "\<not> threw (replay_rewards s (length (h_validators R)) (h_validators R))" by simp
    then have a: "\<not> (\<exists>k \<in> fst ` set (h_validators R). accounts s k = None)"
      unfolding replay_rewards_threw .
    from replay_rewards_frame[OF Ok]
    have "(accounts z (t_from (h_transaction R)) = None) =
          (accounts s (t_from (h_transaction R)) = None)" by blast
    with True Ok a show ?thesis
      by (auto simp: replay_validators_def Let_def update_account_threw)
  qed
qed

lemma replay_validators_frame:
  assumes "replay_validators E s i R = Ok z"
  shows "transactionMerkle z = transactionMerkle s"
    and "t_from (h_transaction R) \<notin> fst ` set (h_validators R) \<Longrightarrow>
         balance_of z (t_from (h_transaction R)) = balance_of s (t_from (h_transaction R))"
proof -
  show "transactionMerkle z = transactionMerkle s"
  proof (cases "\<not> (t_data (h_transaction R) = Some ''GENESIS'' \<and> i < 6) \<and>
     h_validatorsRoot R = validatorsRoot E (h_validators R)")
    case False
    with assms show ?thesis by (auto simp: replay_validators_def Let_def)
  next
    case True
    with assms obtain y where
      r: "replay_rewards s (length (h_validators R)) (h_validators R) = Ok y"
      and u: "update_account y (t_from (h_transaction R)) (\<lambda>a. a\<lparr>nonce := nonce a + 1\<rparr>) = Ok z"
      by (cases "replay_rewards s (length (h_validators R)) (h_validators R)")
         (auto simp: replay_validators_def Let_def)
    from replay_rewards_frame[OF r] update_account_tree[OF u] show ?thesis by simp
  qed
next
  assume out: "t_from (h_transaction R) \<notin> fst ` set (h_validators R)"
  show "balance_of z (t_from (h_transaction R)) = balance_of s (t_from (h_transaction R))"
  proof (cases "\<not> (t_data (h_transaction R) = Some ''GENESIS'' \<and> i < 6) \<and>
     h_validatorsRoot R = validatorsRoot E (h_validators R)")
    case False
    with assms show ?thesis by (auto simp: replay_validators_def Let_def)
  next
    case True
    with assms obtain y where
      r: "replay_rewards s (length (h_validators R)) (h_validators R) = Ok y"
      and u: "update_account y (t_from (h_transaction R)) (\<lambda>a. a\<lparr>nonce := nonce a + 1\<rparr>) = Ok z"
      by (cases "replay_rewards s (length (h_validators R)) (h_validators R)")
         (auto simp: replay_validators_def Let_def)
    from replay_rewards_frame[OF r] out
    have "accounts y (t_from (h_transaction R)) = accounts s (t_from (h_transaction R))" by blast
    then have "balance_of y (t_from (h_transaction R)) = balance_of s (t_from (h_transaction R))"
      by (simp add: balance_of_def)
    with update_account_balance[OF u, of "t_from (h_transaction R)"] show ?thesis by simp
  qed
qed

text \<open>Nothing of the replay of a record inside the window reads \<open>verify\<close>.\<close>

lemma promote_verify: "promote (E\<lparr>verify := v\<rparr>) lv h = promote E lv h"
  by (induction lv arbitrary: h) (simp_all add: Let_def)

lemma add_verify: "add (E\<lparr>verify := v\<rparr>) m x = add E m x"
  by (simp add: add_def promote_verify split: option.splits)

lemma replay_record_verify:
  assumes "i < 6" and "t_body (h_transaction R) = ''GENESIS''"
  shows "replay_record (E\<lparr>verify := v\<rparr>) s i R = replay_record E s i R"
  using assms
  by (simp add: replay_record_def replay_valid_def replay_validators_def validatorsRoot_def
      add_verify Let_def)

lemma replay_record_window:
  assumes i: "i < 6" and body: "t_body (h_transaction R) = ''GENESIS''"
    and d: "replay_debit s i (h_transaction R) = Ok d"
  shows "replay_record E s i R =
     and_then (credit d (h_transaction R)) (\<lambda>c.
     and_then (replay_validators E c i R) (\<lambda>z.
       Ok (i + 1, z\<lparr>transactionMerkle :=
                      add E (transactionMerkle z) (serialize E (h_transaction R))\<rparr>)))"
  using assms by (simp add: replay_record_def replay_valid_def Let_def)

text \<open>
  Claim C3, as the code has it. \<open>R\<close> is a record among the first six of a chain
  (fewer than six records \<open>pre\<close> come before it, and the replay of \<open>pre\<close> reaches
  it with the counter \<open>i\<close> and the state \<open>s1\<close>), its transaction \<open>t\<close> has the body
  \<open>GENESIS\<close>, and the records are plain.
  \<^item> \<open>createAccState\<close> on the chain up to \<open>R\<close> ends as the replay of \<open>R\<close> from
    \<open>s1\<close> does, and that replay is the same whatever \<open>verify\<close> answers.
  \<^item> The replay never skips \<open>R\<close>: when it returns, the counter has advanced
    and the serialized transaction was added to the tree.
  \<^item> It returns exactly when no step reads a missing account: the sender is
    paid in when the receiver is \<open>stake\<close>, and the sender and every voter of \<open>R\<close>
    are paid in when the reward step runs. Otherwise the replay throws.
  \<^item> When it returns, and the sender is neither the receiver nor a voter of
    \<open>R\<close>, the balance of a sender \<open>GENESIS\<close> is what it was; the balance of any
    other sender, created at zero when missing, has lost the amount (on the integers
    where the arithmetic of the code is exact).
\<close>

theorem genesis_bypass:
  assumes pre: "replay_loop E s 0 pre = Ok (i, s1)" and short: "length pre < 6"
    and plain: "list_all plain_record (pre @ [R])"
    and t: "h_transaction R = t" and body: "t_body t = ''GENESIS''"
  shows "createAccState E s (pre @ [R]) =
       and_then (replay_record E s1 i R) (\<lambda>(j, z). Ok z) \<and>
     replay_record (E\<lparr>verify := v\<rparr>) s1 i R = replay_record E s1 i R \<and>
     (replay_record E s1 i R = Ok (j, s') \<longrightarrow>
        j = i + 1 \<and>
        transactionMerkle s' = add E (transactionMerkle s1) (serialize E t)) \<and>
     ((\<exists>z. replay_record E s1 i R = Ok (i + 1, z)) \<longleftrightarrow>
        (t_to t = ''stake'' \<longrightarrow> paid_in s1 t (t_from t)) \<and>
        (rewarded E R \<longrightarrow>
           paid_in s1 t (t_from t) \<and> (\<forall>k \<in> fst ` set (h_validators R). paid_in s1 t k))) \<and>
     (replay_record E s1 i R = Ok (j, s') \<longrightarrow>
      t_to t \<noteq> t_from t \<longrightarrow> t_from t \<notin> fst ` set (h_validators R) \<longrightarrow>
        (t_from t = ''GENESIS'' \<longrightarrow> balance_of s' (t_from t) = balance_of s1 (t_from t)) \<and>
        (t_from t \<noteq> ''GENESIS'' \<longrightarrow>
         exact (t_amount t) \<longrightarrow>
         exact (balance (case accounts s1 (t_from t) of None \<Rightarrow> zero_account | Some a \<Rightarrow> a)) \<longrightarrow>
         exact (balance (case accounts s1 (t_from t) of None \<Rightarrow> zero_account | Some a \<Rightarrow> a) -
                t_amount t) \<longrightarrow>
           balance_of s' (t_from t) =
             Some (balance (case accounts s1 (t_from t) of None \<Rightarrow> zero_account | Some a \<Rightarrow> a) -
                   t_amount t)))"
proof -
  from replay_loop_counter[OF pre] short have i: "i < 6" by simp
  from body t have b: "t_body (h_transaction R) = ''GENESIS''" by simp
  from replay_debit_window[OF i, of s1 t] obtain d where
    d: "replay_debit s1 i t = Ok d" and dt: "transactionMerkle d = transactionMerkle s1"
    and dn: "\<And>x. (accounts d x = None) =
            (accounts s1 x = None \<and> \<not> (x = t_from t \<and> t_from t \<noteq> ''GENESIS''))"
    and db: "balance_of d (t_from t) =
       (if t_from t = ''GENESIS'' then balance_of s1 (t_from t)
        else Some (balance (case accounts s1 (t_from t) of None \<Rightarrow> zero_account | Some a \<Rightarrow> a) -
                   t_amount t))"
    by blast
  from d t have d': "replay_debit s1 i (h_transaction R) = Ok d" by simp
  note rr = replay_record_window[OF i b d', of E, unfolded t]
  have first: "createAccState E s (pre @ [R]) =
       and_then (replay_record E s1 i R) (\<lambda>(j, z). Ok z) \<and>
     replay_record (E\<lparr>verify := v\<rparr>) s1 i R = replay_record E s1 i R"
    using replay_loop_last(2)[OF pre] replay_record_verify[OF i b] by simp
  show ?thesis
  proof (cases "credit d t")
    case (Throw x)
    then have "threw (credit d t)" by simp
    then have "t_to t = ''stake''" and "accounts d (t_from t) = None"
      by (simp_all add: credit_threw)
    with dn[of "t_from t"] have "\<not> paid_in s1 t (t_from t)"
      by (auto simp: paid_in_def)
    with \<open>t_to t = ''stake''\<close> Throw first show ?thesis by (simp add: rr)
  next
    case (Ok c)
    then have "\<not> threw (credit d t)" by simp
    then have stake: "t_to t = ''stake'' \<longrightarrow> paid_in s1 t (t_from t)"
      using dn[of "t_from t"] by (auto simp: credit_threw paid_in_def)
    note cf = credit_frame[OF Ok]
    have known: "(accounts c x = None) = (\<not> paid_in s1 t x)" for x
      using cf(2)[of x] dn[of x] by (auto simp: paid_in_def)
    show ?thesis
    proof (cases "replay_validators E c i R")
      case (Throw x)
      then have "threw (replay_validators E c i R)" by simp
      then have "rewarded E R \<and>
          \<not> (paid_in s1 t (t_from t) \<and> (\<forall>k \<in> fst ` set (h_validators R). paid_in s1 t k))"
        using i by (auto simp: replay_validators_threw rewarded_def t known)
      with Ok Throw first show ?thesis by (simp add: rr)
    next
      case z: (Ok z)
      then have "\<not> threw (replay_validators E c i R)" by simp
      then have rew: "rewarded E R \<longrightarrow>
          paid_in s1 t (t_from t) \<and> (\<forall>k \<in> fst ` set (h_validators R). paid_in s1 t k)"
        using i by (auto simp: replay_validators_threw rewarded_def t known)
      note vf = replay_validators_frame[OF z, unfolded t]
      have res: "replay_record E s1 i R =
          Ok (i + 1, z\<lparr>transactionMerkle := add E (transactionMerkle z) (serialize E t)\<rparr>)"
        using Ok z by (simp add: rr)
      have tree: "transactionMerkle z = transactionMerkle s1"
        using vf(1) cf(1) dt by simp
      have bal: "balance_of z (t_from t) = balance_of d (t_from t)"
        if "t_to t \<noteq> t_from t" and "t_from t \<notin> fst ` set (h_validators R)"
        using vf(2)[OF that(2)] cf(3)[OF that(1)] by simp
      have keep: "balance_of (z\<lparr>transactionMerkle := m\<rparr>) k = balance_of z k" for m k
        by (simp add: balance_of_def)
      from first res stake rew tree bal db show ?thesis
        by (auto simp: keep)
    qed
  qed
qed

text \<open>On a fresh node whose first record has credited 400 to the account
  \<open>GENESIS\<close>. A second record that mints 5100 for \<open>K1\<close> with a signature that does
  not verify is applied, all the same under a \<open>verify\<close> that accepts everything:
  \<open>K1\<close> receives 5000 and the balance of \<open>GENESIS\<close> stays 400. A second record with
  the body \<open>GENESIS\<close> that transfers 1000 from \<open>X\<close>, which has no account, is applied
  too, and leaves \<open>X\<close> with the balance -1000.\<close>

theorem genesis_bypass_witness:
  "replay_loop sample_env seeded 0 [unvoted tx_seed] = Ok (1, seeded_once) \<and>
   length [unvoted tx_seed] < 6 \<and>
   list_all plain_record ([unvoted tx_seed] @ [unvoted tx_mint]) \<and>
   h_transaction (unvoted tx_mint) = tx_mint \<and>
   t_body tx_mint = ''GENESIS'' \<and> t_from tx_mint = ''GENESIS'' \<and> t_amount tx_mint = 5100 \<and>
   verify sample_env tx_mint = Some False \<and>
   replay_record (sample_env\<lparr>verify := \<lambda>t. Some True\<rparr>) seeded_once 1 (unvoted tx_mint) =
     replay_record sample_env seeded_once 1 (unvoted tx_mint) \<and>
   replay_record sample_env seeded_once 1 (unvoted tx_mint) = Ok (2, seeded_twice) \<and>
   createAccState sample_env seeded ([unvoted tx_seed] @ [unvoted tx_mint]) = Ok seeded_twice \<and>
   transactionMerkle seeded_twice =
     add sample_env (transactionMerkle seeded_once) (serialize sample_env tx_mint) \<and>
   balance_of seeded_once ''GENESIS'' = Some 400 \<and>
   balance_of seeded_twice ''GENESIS'' = Some 400 \<and>
   balance_of seeded_twice ''K1'' = Some 5000 \<and>
   list_all plain_record ([unvoted tx_seed] @ [unvoted tx_orphan]) \<and>
   h_transaction (unvoted tx_orphan) = tx_orphan \<and>
   t_body tx_orphan = ''GENESIS'' \<and> t_from tx_orphan = ''X'' \<and> t_amount tx_orphan = 1000 \<and>
   exact 1000 \<and> exact 0 \<and> exact (0 - 1000) \<and>
   accounts seeded_once ''X'' = None \<and>
   replay_record sample_env seeded_once 1 (unvoted tx_orphan) = Ok (2, seeded_debited) \<and>
   balance_of seeded_debited ''X'' = Some (0 - 1000)"
proof -
  have l: "replay_loop sample_env seeded 0 [unvoted tx_seed] = Ok (1, seeded_once)"
    by (simp add: seeded_def seeded_once_def sample_defs handler_defs replay_defs Let_def)
  have n: "length [unvoted tx_seed] < 6" by simp
  have p: "list_all plain_record ([unvoted tx_seed] @ [unvoted tx_mint])"
    and p': "list_all plain_record ([unvoted tx_seed] @ [unvoted tx_orphan])"
    by (simp_all add: plain_record_def inherited_def prototype_names_def sample_defs)
  have h: "h_transaction (unvoted tx_mint) = tx_mint"
    and b: "t_body tx_mint = ''GENESIS''"
    and f: "t_from tx_mint = ''GENESIS''" "t_to tx_mint = ''K1''" "t_amount tx_mint = 5100"
      "h_validators (unvoted tx_mint) = []"
    and v: "verify sample_env tx_mint = Some False"
    and h': "h_transaction (unvoted tx_orphan) = tx_orphan"
    and b': "t_body tx_orphan = ''GENESIS''"
    and f': "t_from tx_orphan = ''X''" "t_to tx_orphan = ''K2''" "t_amount tx_orphan = 1000"
      "h_validators (unvoted tx_orphan) = []"
    by (simp_all add: sample_defs)
  have r: "replay_record sample_env seeded_once 1 (unvoted tx_mint) = Ok (2, seeded_twice)"
    and r': "replay_record sample_env seeded_once 1 (unvoted tx_orphan) = Ok (2, seeded_debited)"
    by (simp_all add: seeded_def seeded_once_def seeded_twice_def seeded_debited_def
        sample_defs handler_defs replay_defs Let_def fun_eq_iff)
  have o: "balance_of seeded_once ''GENESIS'' = Some 400"
    and k: "balance_of seeded_twice ''K1'' = Some 5000"
    and x: "accounts seeded_once ''X'' = None"
    by (simp_all add: balance_of_def seeded_once_def seeded_twice_def seeded_def P2P_def)
  have e: "exact 1000" "exact 0" "exact (0 - 1000)"
    by (simp_all add: exact_def)
  from genesis_bypass[OF l n p h b, of "\<lambda>t. Some True" 2 seeded_twice] r f o
  have m: "replay_record (sample_env\<lparr>verify := \<lambda>t. Some True\<rparr>) seeded_once 1 (unvoted tx_mint) =
          replay_record sample_env seeded_once 1 (unvoted tx_mint)"
    "createAccState sample_env seeded ([unvoted tx_seed] @ [unvoted tx_mint]) =
          Ok seeded_twice"
    "transactionMerkle seeded_twice =
          add sample_env (transactionMerkle seeded_once) (serialize sample_env tx_mint)"
    "balance_of seeded_twice ''GENESIS'' = Some 400"
    by simp_all
  from genesis_bypass[OF l n p' h' b', of "\<lambda>t. Some True" 2 seeded_debited] r' f' x e
  have d: "balance_of seeded_debited ''X'' = Some (0 - 1000)"
    by (simp add: zero_account_def)
  from l n p h b f v r o k m p' h' b' f' e x r' d show ?thesis by simp
qed

text \<open>The claim as stated fails where the body is \<open>GENESIS\<close> and the sender is not:
  the first record of a chain, from \<open>X\<close>, is accepted and \<open>X\<close> is debited.\<close>

theorem genesis_body_is_debited:
  "t_body tx_orphan = ''GENESIS'' \<and>
   accounts (P2P [unvoted tx_orphan] Map.empty ''K0'') ''X'' = None \<and>
   createAccState sample_env (P2P [unvoted tx_orphan] Map.empty ''K0'') [unvoted tx_orphan] =
     Ok ((P2P [unvoted tx_orphan] Map.empty ''K0'')
          \<lparr>accounts := [''X'' \<mapsto> \<lparr>balance = - 1000, stake = 0, nonce = 0\<rparr>,
                        ''K2'' \<mapsto> \<lparr>balance = 900, stake = 0, nonce = 0\<rparr>],
           transactionMerkle := \<lparr>leaves = [''X>K2/GENESIS''], levels = [[''X>K2/GENESIS'']]\<rparr>\<rparr>)"
  by (simp add: sample_defs handler_defs replay_defs Let_def)


subsection \<open>What the replay depends on\<close>

lemma alike_then:
  assumes "alike a b" and "\<And>x y. books x = books y \<Longrightarrow> alike (f x) (g y)"
  shows "alike (and_then a f) (and_then b g)"
  using assms by (cases a; cases b) auto

lemma alike_then_counted:
  assumes "alike a b" and "\<And>x y. books x = books y \<Longrightarrow> alike_counted (f x) (g y)"
  shows "alike_counted (and_then a f) (and_then b g)"
  using assms by (cases a; cases b) auto

lemma alike_update_account:
  "books s = books s' \<Longrightarrow> alike (update_account s k f) (update_account s' k f)"
  by (auto simp: update_account_def books_def split: option.splits)

lemma alike_replay_debit:
  "books s = books s' \<Longrightarrow> alike (replay_debit s i t) (replay_debit s' i t)"
  unfolding replay_debit_def
  by (auto intro!: alike_update_account simp: books_def)

lemma alike_credit:
  "books s = books s' \<Longrightarrow> alike (credit s t) (credit s' t)"
  unfolding credit_def
  by (auto intro!: alike_update_account simp: books_def)

lemma alike_replay_rewards:
  "books s = books s' \<Longrightarrow> alike (replay_rewards s n vs) (replay_rewards s' n vs)"
proof (induction vs arbitrary: s s')
  case Nil
  then show ?case by simp
next
  case (Cons v vs)
  obtain k b where v: "v = (k, b)" by (cases v)
  show ?case unfolding v replay_rewards.simps
    by (rule alike_then) (auto intro: alike_update_account Cons.prems Cons.IH)
qed

lemma validatorsRoot_clock [simp]:
  "validatorsRoot (E\<lparr>date_now_sec := n\<rparr>) vs = validatorsRoot E vs"
  by (simp add: validatorsRoot_def)

lemma add_clock [simp]: "add (E\<lparr>date_now_sec := n\<rparr>) m x = add E m x"
proof -
  have "promote (E\<lparr>date_now_sec := n\<rparr>) lv h = promote E lv h" for lv h
    by (induction lv arbitrary: h) (simp_all add: Let_def)
  then show ?thesis by (simp add: add_def split: option.splits)
qed

lemma alike_replay_validators:
  "books s = books s' \<Longrightarrow>
   alike (replay_validators E s i R) (replay_validators (E\<lparr>date_now_sec := n\<rparr>) s' i R)"
  unfolding replay_validators_def Let_def
  by (auto intro!: alike_then alike_update_account alike_replay_rewards)

lemma replay_valid_alike:
  assumes "books s = books s'" and "i \<le> length (transactions s)" and "i \<le> length (transactions s')"
    and "same_future E n t"
  shows "replay_valid (E\<lparr>date_now_sec := n\<rparr>) s' i t = replay_valid E s i t"
proof (cases "i < 6 \<and> t_body t = ''GENESIS''")
  case True
  then show ?thesis by (simp add: replay_valid_def)
next
  case False
  with assms(2,3) have "\<not> (length (transactions s) < 6 \<and> t_body t = ''GENESIS'')"
    "\<not> (length (transactions s') < 6 \<and> t_body t = ''GENESIS'')" by auto
  moreover from assms(1) have "accounts s' = accounts s" by (simp add: books_def)
  ultimately show ?thesis using False assms(4)
    by (auto simp: replay_valid_def transactionValid_def same_future_def Let_def
        split: option.splits)
qed

lemma alike_replay_record:
  assumes "books s = books s'" and "i < length (transactions s)" and "i < length (transactions s')"
    and "same_future E n (h_transaction R)"
  shows "alike_counted (replay_record E s i R) (replay_record (E\<lparr>date_now_sec := n\<rparr>) s' i R)"
proof (cases "replay_valid E s i (h_transaction R)")
  case False
  with replay_valid_alike[OF assms(1) _ _ assms(4), of i] assms(1-3) show ?thesis
    by (simp add: replay_record_def)
next
  case True
  with replay_valid_alike[OF assms(1) _ _ assms(4), of i] assms(2,3)
  have v: "replay_valid (E\<lparr>date_now_sec := n\<rparr>) s' i (h_transaction R)" by simp
  have "alike_counted
     (and_then (replay_debit s i (h_transaction R)) (\<lambda>s1.
        and_then (credit s1 (h_transaction R)) (\<lambda>s2.
        and_then (replay_validators E s2 i R) (\<lambda>s3.
          Ok (i + 1,
              s3\<lparr>transactionMerkle := add E (transactionMerkle s3) (serialize E (h_transaction R))\<rparr>)))))
     (and_then (replay_debit s' i (h_transaction R)) (\<lambda>s1.
        and_then (credit s1 (h_transaction R)) (\<lambda>s2.
        and_then (replay_validators (E\<lparr>date_now_sec := n\<rparr>) s2 i R) (\<lambda>s3.
          Ok (i + 1,
              s3\<lparr>transactionMerkle := add E (transactionMerkle s3) (serialize E (h_transaction R))\<rparr>)))))"
    by (intro alike_then_counted alike_replay_debit assms(1) alike_credit alike_replay_validators)
       (auto simp: books_def)
  with True v show ?thesis by (simp add: replay_record_def Let_def)
qed


text \<open>The replay leaves \<open>chain.transactions\<close> as it is.\<close>

lemma transactions_then:
  assumes "transactions (caught a) = transactions s"
    and "\<And>x. transactions (caught (f x)) = transactions x"
  shows "transactions (caught (and_then a f)) = transactions s"
  using assms by (cases a) auto

lemma transactions_then_pair:
  assumes "transactions (caught a) = transactions s"
    and "\<And>x. transactions (state_of (f x)) = transactions x"
  shows "transactions (state_of (and_then a f)) = transactions s"
  using assms by (cases a) auto

lemma transactions_update_account [simp]:
  "transactions (caught (update_account s k f)) = transactions s"
  by (simp add: update_account_def split: option.splits)

lemma transactions_replay_debit [simp]:
  "transactions (caught (replay_debit s i t)) = transactions s"
  using transactions_update_account[of "s\<lparr>accounts := ensure (accounts s) (t_from t)\<rparr>"]
  by (simp add: replay_debit_def)

lemma transactions_credit [simp]: "transactions (caught (credit s t)) = transactions s"
  using transactions_update_account[of "s\<lparr>accounts := ensure (accounts s) (t_to t)\<rparr>"]
  by (simp add: credit_def)

lemma transactions_replay_rewards [simp]:
  "transactions (caught (replay_rewards s n vs)) = transactions s"
proof (induction vs arbitrary: s)
  case Nil
  show ?case by simp
next
  case (Cons v vs)
  obtain k b where v: "v = (k, b)" by (cases v)
  show ?case unfolding v replay_rewards.simps
    by (rule transactions_then) (simp_all add: Cons.IH)
qed

lemma transactions_replay_validators [simp]:
  "transactions (caught (replay_validators E s i R)) = transactions s"
  unfolding replay_validators_def Let_def
  by (auto intro!: transactions_then)

lemma transactions_replay_record [simp]:
  "transactions (state_of (replay_record E s i R)) = transactions s"
  unfolding replay_record_def Let_def
  by (auto intro!: transactions_then_pair)

text \<open>
  Two replays of the same records are alike when they start from the same
  accounts and tree, the chain of each node is at least as long as what is left
  to replay, and the two clocks agree on which timestamps lie in the future. The
  other fields of the two nodes play no part.
\<close>

lemma alike_replay_loop:
  assumes "books s = books s'"
    and "i + length txs \<le> length (transactions s)"
    and "i + length txs \<le> length (transactions s')"
    and "\<forall>R \<in> set txs. same_future E n (h_transaction R)"
  shows "alike_counted (replay_loop E s i txs) (replay_loop (E\<lparr>date_now_sec := n\<rparr>) s' i txs)"
  using assms
proof (induction txs arbitrary: s s' i)
  case Nil
  then show ?case by simp
next
  case (Cons R txs)
  from Cons.prems have i: "i < length (transactions s)" "i < length (transactions s')"
    and f: "same_future E n (h_transaction R)" by simp_all
  note rec = alike_replay_record[OF Cons.prems(1) i f]
  show ?case
  proof (cases "replay_record E s i R")
    case (Throw a)
    with rec show ?thesis
      by (cases "replay_record (E\<lparr>date_now_sec := n\<rparr>) s' i R") auto
  next
    case (Ok p)
    obtain j a where p: "p = (j, a)" by (cases p)
    from rec Ok p obtain b where
      ok': "replay_record (E\<lparr>date_now_sec := n\<rparr>) s' i R = Ok (j, b)" and bk: "books a = books b"
      by (cases "replay_record (E\<lparr>date_now_sec := n\<rparr>) s' i R") auto
    from replay_record_counter[of E s i R j a] Ok p have j: "j \<le> Suc i" by simp
    from transactions_replay_record[of E s i R] Ok p have ta: "transactions a = transactions s"
      by simp
    from transactions_replay_record[of "E\<lparr>date_now_sec := n\<rparr>" s' i R] ok'
    have tb: "transactions b = transactions s'" by simp
    from Cons.prems j ta tb have
      "j + length txs \<le> length (transactions a)" "j + length txs \<le> length (transactions b)"
      "\<forall>R \<in> set txs. same_future E n (h_transaction R)" by simp_all
    from Cons.IH[OF bk this] Ok p ok' show ?thesis by simp
  qed
qed

lemma alike_createAccState:
  assumes "books s = books s'"
    and "length txs \<le> length (transactions s)" and "length txs \<le> length (transactions s')"
    and "\<forall>R \<in> set txs. same_future E n (h_transaction R)"
  shows "alike (createAccState E s txs) (createAccState (E\<lparr>date_now_sec := n\<rparr>) s' txs)"
proof -
  from alike_replay_loop[of s s' 0 txs E n] assms
  have "alike_counted (replay_loop E s 0 txs) (replay_loop (E\<lparr>date_now_sec := n\<rparr>) s' 0 txs)"
    by simp
  then show ?thesis
    by (cases "replay_loop E s 0 txs"; cases "replay_loop (E\<lparr>date_now_sec := n\<rparr>) s' 0 txs")
       (auto simp: createAccState_def)
qed

lemma alike_results:
  "alike a b \<Longrightarrow> books (caught a) = books (caught b) \<and> threw a = threw b"
  by (cases a; cases b) auto

lemma getRoot_clock [simp]: "getRoot (E\<lparr>date_now_sec := n\<rparr>) t = getRoot E t"
proof -
  have nn: "next_nodes (E\<lparr>date_now_sec := n\<rparr>) nodes i = next_nodes E nodes i" for E nodes i
  proof (induction E nodes i rule: next_nodes.induct)
    case (1 E nodes i)
    from "1.IH" show ?case
      unfolding next_nodes.simps[of "E\<lparr>date_now_sec := n\<rparr>" nodes i] next_nodes.simps[of E nodes i]
      by (auto simp: Let_def split: option.splits)
  qed
  have "fold_nodes (E\<lparr>date_now_sec := n\<rparr>) nodes = fold_nodes E nodes" for E nodes
  proof (induction E nodes rule: fold_nodes.induct)
    case (1 E nodes)
    from "1.IH" show ?case
      unfolding fold_nodes.simps[of "E\<lparr>date_now_sec := n\<rparr>" nodes] fold_nodes.simps[of E nodes]
      by (auto simp: nn split: option.splits)
  qed
  then show ?thesis by (simp add: getRoot_def)
qed

text \<open>
  Claim C7, as the code has it. Two replays of one record sequence, on two nodes
  that start with the same accounts and the same tree and hold the sequence as
  their chain, under the same libraries and two clocks: when the clocks agree, for
  every record, on whether its timestamp is later than now plus
  \<open>timestampRange\<close> (as they do when no record is dated in the future of either),
  both replays return or both throw, with the same accounts, the same tree and
  the same root. Nothing else of the two nodes matters.
\<close>

theorem replay_determinism:
  assumes "accounts s = accounts s'" and "transactionMerkle s = transactionMerkle s'"
    and "transactions s = txs" and "transactions s' = txs"
    and "\<forall>R \<in> set txs. same_future E now' (h_transaction R)"
  shows "accounts (caught (createAccState E s txs)) =
           accounts (caught (createAccState (E\<lparr>date_now_sec := now'\<rparr>) s' txs)) \<and>
         transactionMerkle (caught (createAccState E s txs)) =
           transactionMerkle (caught (createAccState (E\<lparr>date_now_sec := now'\<rparr>) s' txs)) \<and>
         getRoot E (transactionMerkle (caught (createAccState E s txs))) =
           getRoot (E\<lparr>date_now_sec := now'\<rparr>)
             (transactionMerkle (caught (createAccState (E\<lparr>date_now_sec := now'\<rparr>) s' txs))) \<and>
         threw (createAccState E s txs) =
           threw (createAccState (E\<lparr>date_now_sec := now'\<rparr>) s' txs)"
proof -
  from assms(1,2) have "books s = books s'" by (simp add: books_def)
  from alike_results[OF alike_createAccState[OF this, of txs E now']] assms(3-5)
  show ?thesis by (simp add: books_def)
qed


text \<open>Two sample nodes replay the chain at the clocks 3000 and 3500, for both of
  which no record is dated in the future.\<close>

theorem replay_determinism_witness:
  "accounts late_node = accounts other_node \<and>
   transactionMerkle late_node = transactionMerkle other_node \<and>
   transactions late_node = late_chain \<and> transactions other_node = late_chain \<and>
   same_future (sample_env\<lparr>date_now_sec := 3000\<rparr>) 3500 tx_mint \<and>
   same_future (sample_env\<lparr>date_now_sec := 3000\<rparr>) 3500 tx_late \<and>
   accounts (caught (createAccState (sample_env\<lparr>date_now_sec := 3000\<rparr>) late_node late_chain)) =
     [''K1'' \<mapsto> \<lparr>balance = 4000, stake = 0, nonce = 0\<rparr>,
      ''K2'' \<mapsto> \<lparr>balance = 900, stake = 0, nonce = 0\<rparr>] \<and>
   accounts (caught (createAccState (sample_env\<lparr>date_now_sec := 3500\<rparr>) other_node late_chain)) =
     [''K1'' \<mapsto> \<lparr>balance = 4000, stake = 0, nonce = 0\<rparr>,
      ''K2'' \<mapsto> \<lparr>balance = 900, stake = 0, nonce = 0\<rparr>] \<and>
   getRoot (sample_env\<lparr>date_now_sec := 3500\<rparr>)
     (transactionMerkle
        (caught (createAccState (sample_env\<lparr>date_now_sec := 3500\<rparr>) other_node late_chain))) =
     Root ''#GENESIS>K1/GENESISK1>K2/late''"
proof -
  have a: "accounts late_node = accounts other_node"
    and m: "transactionMerkle late_node = transactionMerkle other_node"
    and t: "transactions late_node = late_chain" "transactions other_node = late_chain"
    by (simp_all add: late_node_def other_node_def P2P_def)
  have f: "same_future (sample_env\<lparr>date_now_sec := 3000\<rparr>) 3500 tx_mint"
    "same_future (sample_env\<lparr>date_now_sec := 3000\<rparr>) 3500 tx_late"
    by (simp_all add: same_future_def timestampRange_def sample_defs)
  then have all: "\<forall>R \<in> set late_chain.
      same_future (sample_env\<lparr>date_now_sec := 3000\<rparr>) 3500 (h_transaction R)"
    by (simp add: late_chain_def unvoted_def)
  have e: "sample_env\<lparr>date_now_sec := 3000, date_now_sec := 3500\<rparr> =
      sample_env\<lparr>date_now_sec := 3500\<rparr>"
    by simp
  have run: "createAccState (sample_env\<lparr>date_now_sec := 3000\<rparr>) late_node late_chain =
      Ok (late_node\<lparr>accounts := [''K1'' \<mapsto> \<lparr>balance = 4000, stake = 0, nonce = 0\<rparr>,
                                ''K2'' \<mapsto> \<lparr>balance = 900, stake = 0, nonce = 0\<rparr>],
           transactionMerkle := \<lparr>leaves = [''GENESIS>K1/GENESIS'', ''K1>K2/late''],
             levels = [[], [''#GENESIS>K1/GENESISK1>K2/late'']]\<rparr>\<rparr>)"
    by (simp add: late_node_def late_chain_def sample_defs handler_defs replay_defs Let_def)
  have root: "getRoot (sample_env\<lparr>date_now_sec := 3000\<rparr>)
      \<lparr>leaves = [''GENESIS>K1/GENESIS'', ''K1>K2/late''],
       levels = [[], [''#GENESIS>K1/GENESISK1>K2/late'']]\<rparr> = Root ''#GENESIS>K1/GENESISK1>K2/late''"
    by (simp add: getRoot_def fold_nodes.simps)
  from replay_determinism[OF a m t all] run root a m t f
  show ?thesis unfolding e by simp
qed

text \<open>The claim as stated fails across wall-clock times: at the clock 1000 the
  record dated 2000 lies in the future and is skipped, at the clock 3000 it is
  applied; accounts and root differ.\<close>

theorem replay_depends_on_clock:
  "createAccState sample_env late_node late_chain =
     Ok (late_node\<lparr>accounts := [''K1'' \<mapsto> \<lparr>balance = 5000, stake = 0, nonce = 0\<rparr>],
          transactionMerkle := \<lparr>leaves = [''GENESIS>K1/GENESIS''],
                                levels = [[''GENESIS>K1/GENESIS'']]\<rparr>\<rparr>) \<and>
   createAccState (sample_env\<lparr>date_now_sec := 3000\<rparr>) late_node late_chain =
     Ok (late_node\<lparr>accounts := [''K1'' \<mapsto> \<lparr>balance = 4000, stake = 0, nonce = 0\<rparr>,
                               ''K2'' \<mapsto> \<lparr>balance = 900, stake = 0, nonce = 0\<rparr>],
          transactionMerkle := \<lparr>leaves = [''GENESIS>K1/GENESIS'', ''K1>K2/late''],
            levels = [[], [''#GENESIS>K1/GENESISK1>K2/late'']]\<rparr>\<rparr>) \<and>
   getRoot sample_env \<lparr>leaves = [''GENESIS>K1/GENESIS''],
                       levels = [[''GENESIS>K1/GENESIS'']]\<rparr> = Root ''GENESIS>K1/GENESIS'' \<and>
   getRoot (sample_env\<lparr>date_now_sec := 3000\<rparr>)
     \<lparr>leaves = [''GENESIS>K1/GENESIS'', ''K1>K2/late''],
      levels = [[], [''#GENESIS>K1/GENESISK1>K2/late'']]\<rparr> = Root ''#GENESIS>K1/GENESISK1>K2/late''"
  by (simp add: late_node_def late_chain_def sample_defs handler_defs replay_defs Let_def
      fold_nodes.simps)

subsection \<open>The commit and the replay of the record it appends\<close>

text \<open>On the same accounts, with a voter for every entry, boolean votes and the
  entries being those of \<open>consensus\<close>, the reward loop of the commit over the keys
  and the reward loop of the replay over the recorded votes do the same.\<close>

lemma rewards_agree:
  assumes "accounts c = accounts r"
    and "\<forall>(k, e) \<in> set es. map_of (consensus c) k = Some e"
    and "\<forall>(k, e) \<in> set es. k \<in> dom (accounts c)"
    and "\<forall>(k, e) \<in> set es. \<exists>b. entry_valid e = JBool b"
  shows "\<exists>c' r'. commit_rewards c n (map fst es) = Ok c' \<and>
           replay_rewards r n (map (\<lambda>(key, val). (key, entry_valid val)) es) = Ok r' \<and>
           accounts c' = accounts r' \<and> dom (accounts c') = dom (accounts c) \<and>
           session c' = session c \<and> transactions c' = transactions c \<and>
           transactionMerkle c' = transactionMerkle c \<and>
           transactionMerkle r' = transactionMerkle r"
  using assms
proof (induction es arbitrary: c r)
  case Nil
  then show ?case by simp
next
  case (Cons x es)
  obtain k e where x: "x = (k, e)" by (cases x)
  from Cons.prems(2-4) x obtain a b where
    m: "map_of (consensus c) k = Some e" and a: "accounts c k = Some a"
    and b: "entry_valid e = JBool b"
    by auto
  define a' where "a' = (if \<not> b then a\<lparr>stake := stake a - fine\<rparr>
                          else a\<lparr>balance := balance a + (fee div int n + 1)\<rparr>)"
  define c1 where "c1 = c\<lparr>accounts := (accounts c)(k \<mapsto> a')\<rparr>"
  define r1 where "r1 = r\<lparr>accounts := (accounts r)(k \<mapsto> a')\<rparr>"
  have cstep: "commit_rewards c n (map fst (x # es)) = commit_rewards c1 n (map fst es)"
    using m a b by (simp add: x c1_def a'_def)
  have rstep: "replay_rewards r n (map (\<lambda>(key, val). (key, entry_valid val)) (x # es)) =
      replay_rewards r1 n (map (\<lambda>(key, val). (key, entry_valid val)) es)"
    using a b Cons.prems(1) by (simp add: x r1_def a'_def update_account_def)
  have p1: "accounts c1 = accounts r1"
    using Cons.prems(1) by (simp add: c1_def r1_def)
  have p2: "\<forall>(k, e) \<in> set es. map_of (consensus c1) k = Some e"
    using Cons.prems(2) by (simp add: c1_def)
  have d: "dom (accounts c1) = dom (accounts c)"
    using a by (auto simp: c1_def)
  have p3: "\<forall>(k, e) \<in> set es. k \<in> dom (accounts c1)"
    using Cons.prems(3) unfolding d by simp
  have p4: "\<forall>(k, e) \<in> set es. \<exists>b. entry_valid e = JBool b"
    using Cons.prems(4) by simp
  from Cons.IH[OF p1 p2 p3 p4] obtain c' r' where
    "commit_rewards c1 n (map fst es) = Ok c'"
    "replay_rewards r1 n (map (\<lambda>(key, val). (key, entry_valid val)) es) = Ok r'"
    "accounts c' = accounts r'" "dom (accounts c') = dom (accounts c1)"
    "session c' = session c1" "transactions c' = transactions c1"
    "transactionMerkle c' = transactionMerkle c1" "transactionMerkle r' = transactionMerkle r1"
    by blast
  with cstep rstep d show ?case
    by (simp add: c1_def r1_def)
qed


text \<open>With an account of the sender the two debit steps do the same. Without one
  they do not: the commit creates the account of a \<open>GENESIS\<close> sender inside the
  window (line 358), which the replay leaves missing.\<close>

lemma debit_paths_differ_on_genesis:
  assumes "accounts s ''GENESIS'' = None" and "t_from t = ''GENESIS''"
    and "length (transactions s) < 6"
  shows "commit_debit s t = Ok (s\<lparr>accounts := (accounts s)(''GENESIS'' \<mapsto> zero_account)\<rparr>) \<and>
         replay_debit s (length (transactions s)) t = Ok s"
  using assms by (simp add: commit_debit_def replay_debit_def ensure_def)

lemma debit_agree:
  assumes "accounts c = accounts z" and "accounts c (t_from t) \<noteq> None"
  shows "\<exists>c1 r1. commit_debit c t = Ok c1 \<and> replay_debit z (length (transactions c)) t = Ok r1 \<and>
           accounts c1 = accounts r1 \<and> dom (accounts c1) = dom (accounts c) \<and>
           session c1 = session c \<and> transactions c1 = transactions c \<and>
           transactionMerkle c1 = transactionMerkle c \<and>
           transactionMerkle r1 = transactionMerkle z"
  using assms
  by (auto simp: commit_debit_def replay_debit_def update_account_def ensure_def session_def)

lemma credit_agree:
  assumes "accounts c = accounts r" and "t_from t \<in> dom (accounts c)"
  shows "\<exists>c2 r2. credit c t = Ok c2 \<and> credit r t = Ok r2 \<and>
           accounts c2 = accounts r2 \<and> dom (accounts c) \<subseteq> dom (accounts c2) \<and>
           session c2 = session c \<and> transactions c2 = transactions c \<and>
           transactionMerkle c2 = transactionMerkle c \<and>
           transactionMerkle r2 = transactionMerkle r"
  using assms
  by (auto simp: credit_def update_account_def ensure_def session_def split: option.splits)

lemma own_vote_keys:
  assumes "publicKey s \<notin> set (map fst (consensus s))"
  shows "map fst (consensus (with_own_vote E s v)) = map fst (consensus s) @ [publicKey s]"
  using assms by (simp add: with_own_vote_def update_keys)

lemma commit_replay_step:
  assumes sender: "accounts s (t_from v) \<noteq> None"
    and voters: "\<forall>k \<in> set (map fst (consensus (with_own_vote E s v))). accounts s k \<noteq> None"
    and bools: "\<forall>e \<in> set (consensus (with_own_vote E s v)). \<exists>b. entry_valid (snd e) = JBool b"
    and fresh: "publicKey s \<notin> set (map fst (consensus s))"
    and keys: "distinct (map fst (consensus s))"
    and valid: "replay_valid E z (length (transactions s)) v"
    and same: "accounts z = accounts s" "transactionMerkle z = transactionMerkle s"
  shows "\<exists>c r. commit E (with_own_vote E s v) v (map fst (consensus s)) = Ok c \<and>
           transactions c = transactions s @ [historyRecord E (with_own_vote E s v) v] \<and>
           replay_record E z (length (transactions s)) (historyRecord E (with_own_vote E s v) v) =
             Ok (Suc (length (transactions s)), r) \<and>
           accounts r = accounts c \<and> transactionMerkle r = transactionMerkle c"
proof -
  define s1 where "s1 = with_own_vote E s v"
  define R where "R = historyRecord E s1 v"
  define n where "n = length (transactions s)"
  have s1: "accounts s1 = accounts s" "transactions s1 = transactions s"
    "transactionMerkle s1 = transactionMerkle s" "publicKey s1 = publicKey s"
    by (simp_all add: s1_def with_own_vote_def)
  have ks: "map fst (consensus s1) = map fst (consensus s) @ [publicKey s]"
    unfolding s1_def by (rule own_vote_keys[OF fresh])
  with keys fresh have dk: "distinct (map fst (consensus s1))" by simp
  have R: "h_transaction R = v"
    "h_validators R = map (\<lambda>(key, val). (key, entry_valid val)) (consensus s1)"
    "h_validatorsRoot R = validatorsRoot E (h_validators R)"
    by (simp_all add: R_def historyRecord_def Let_def)
  from debit_agree[of s1 z v] same sender s1 obtain c1 r1 where
    1: "commit_debit s1 v = Ok c1" "replay_debit z n v = Ok r1" "accounts c1 = accounts r1"
      "dom (accounts c1) = dom (accounts s)" "session c1 = session s1"
      "transactions c1 = transactions s" "transactionMerkle c1 = transactionMerkle s"
      "transactionMerkle r1 = transactionMerkle s"
    by (auto simp: n_def)
  from sender 1(4) have "t_from v \<in> dom (accounts c1)" by auto
  from credit_agree[OF 1(3) this] 1 obtain c2 r2 where
    2: "credit c1 v = Ok c2" "credit r1 v = Ok r2" "accounts c2 = accounts r2"
      "dom (accounts s) \<subseteq> dom (accounts c2)" "session c2 = session s1"
      "transactions c2 = transactions s" "transactionMerkle c2 = transactionMerkle s"
      "transactionMerkle r2 = transactionMerkle s"
    by auto
  from 2(5) have c2: "consensus c2 = consensus s1" "publicKey c2 = publicKey s"
    by (simp_all add: session_def s1(4))
  have "\<exists>c3 r3. commit_validators c2 v (map fst (consensus s)) = Ok c3 \<and>
          replay_validators E r2 n R = Ok r3 \<and> accounts c3 = accounts r3 \<and>
          session c3 = session s1 \<and> transactions c3 = transactions s \<and>
          transactionMerkle c3 = transactionMerkle s \<and> transactionMerkle r3 = transactionMerkle s"
  proof (cases "t_data v = Some ''GENESIS'' \<and> n < 6")
    case True
    with 2 show ?thesis
      by (simp add: commit_validators_def replay_validators_def R n_def)
  next
    case False
    have h2: "\<forall>(k, e) \<in> set (consensus s1). map_of (consensus c2) k = Some e"
      using dk by (auto simp: c2)
    have h3: "\<forall>(k, e) \<in> set (consensus s1). k \<in> dom (accounts c2)"
      using voters 2(4) by (force simp: s1_def)
    have h4: "\<forall>(k, e) \<in> set (consensus s1). \<exists>b. entry_valid e = JBool b"
      using bools by (force simp: s1_def)
    from rewards_agree[OF 2(3) h2 h3 h4, of "length (consensus s1)"] obtain c' r' where
      3: "commit_rewards c2 (length (consensus s1)) (map fst (consensus s1)) = Ok c'"
        "replay_rewards r2 (length (consensus s1))
           (map (\<lambda>(key, val). (key, entry_valid val)) (consensus s1)) = Ok r'"
        "accounts c' = accounts r'" "dom (accounts c') = dom (accounts c2)"
        "session c' = session c2" "transactions c' = transactions c2"
        "transactionMerkle c' = transactionMerkle c2" "transactionMerkle r' = transactionMerkle r2"
      by blast
    from sender 2(4) 3(4) obtain a where a: "accounts c' (t_from v) = Some a" by auto
    have len: "length (map fst (consensus s) @ [publicKey s]) = length (consensus s1)"
      using ks by (metis length_map)
    from False 3 a 2 ks len show ?thesis
      by (simp add: commit_validators_def replay_validators_def R n_def Let_def c2
          update_account_def session_def)
  qed
  then obtain c3 r3 where
    3: "commit_validators c2 v (map fst (consensus s)) = Ok c3"
      "replay_validators E r2 n R = Ok r3" "accounts c3 = accounts r3"
      "session c3 = session s1" "transactions c3 = transactions s"
      "transactionMerkle c3 = transactionMerkle s" "transactionMerkle r3 = transactionMerkle s"
    by blast
  from 3(4) have "consensus c3 = consensus s1" by (simp add: session_def)
  then have hr: "historyRecord E c3 v = R"
    by (simp add: historyRecord_def R_def)
  from 1 2 3 hr valid show ?thesis
    unfolding s1_def[symmetric] R_def[symmetric] n_def[symmetric]
    by (simp add: commit_def replay_record_def R Let_def)
qed


lemma transactions_replay_loop [simp]:
  "transactions (state_of (replay_loop E s i txs)) = transactions s"
proof (induction txs arbitrary: s i)
  case Nil
  show ?case by simp
next
  case (Cons R txs)
  show ?case
  proof (cases "replay_record E s i R")
    case (Ok p)
    obtain i' s' where p: "p = (i', s')" by (cases p)
    from transactions_replay_record[of E s i R] Ok p have "transactions s' = transactions s" by simp
    with Cons.IH[of s' i'] Ok p show ?thesis by simp
  next
    case (Throw s')
    with transactions_replay_record[of E s i R] show ?thesis by simp
  qed
qed

lemma same_future_self [simp]: "same_future E (date_now_sec E) t"
  by (simp add: same_future_def)

text \<open>
  Claim C1, as the code has it. The node is about to commit the candidate \<open>v\<close> in
  the state \<open>s\<close> (line 350); its accounts and tree are what the replay of its
  chain yields from the start state \<open>z\<close>, with no record skipped. Suppose that
  \<open>v\<close> passes the validity test of the replay in \<open>s\<close>, that its sender has an account, that
  every key of \<open>consensus\<close>, the node's own included, has an account, that every
  vote is a boolean, and that the node's key is not among the votes received
  (the keys of the object being distinct). Then the commit returns, it appends
  the record of the slot, and the replay of the extended chain from \<open>z\<close> skips no
  record and ends with the accounts and the tree of the commit.
\<close>

theorem commit_agrees_with_replay:
  assumes sender: "accounts s (t_from v) \<noteq> None"
    and voters: "\<forall>k \<in> set (map fst (consensus (with_own_vote E s v))). accounts s k \<noteq> None"
    and bools: "\<forall>e \<in> set (consensus (with_own_vote E s v)). \<exists>b. entry_valid (snd e) = JBool b"
    and fresh: "publicKey s \<notin> set (map fst (consensus s))"
    and keys: "distinct (map fst (consensus s))"
    and valid: "replay_valid E s (length (transactions s)) v"
    and chain: "transactions z = transactions s"
    and before: "replay_loop E z 0 (transactions s) = Ok (length (transactions s), r)"
      "accounts r = accounts s" "transactionMerkle r = transactionMerkle s"
  shows "\<exists>c r'. commit E (with_own_vote E s v) v (map fst (consensus s)) = Ok c \<and>
           transactions c = transactions s @ [historyRecord E (with_own_vote E s v) v] \<and>
           replay_loop E (z\<lparr>transactions := transactions c\<rparr>) 0 (transactions c) =
             Ok (length (transactions c), r') \<and>
           accounts r' = accounts c \<and> transactionMerkle r' = transactionMerkle c"
proof -
  define R where "R = historyRecord E (with_own_vote E s v) v"
  define txs where "txs = transactions s"
  define z' where "z' = z\<lparr>transactions := txs @ [R]\<rparr>"
  have "alike_counted (replay_loop E z 0 txs) (replay_loop (E\<lparr>date_now_sec := date_now_sec E\<rparr>) z' 0 txs)"
    by (rule alike_replay_loop) (simp_all add: z'_def books_def chain txs_def)
  with before(1) obtain r0 where
    r0: "replay_loop E z' 0 txs = Ok (length txs, r0)" "books r = books r0"
    by (cases "replay_loop E z' 0 txs") (auto simp: txs_def)
  have t0: "transactions r0 = txs @ [R]"
    using transactions_replay_loop[of E z' 0 txs] unfolding r0(1) by (simp add: z'_def)
  from r0(2) before(2,3) have same: "accounts r0 = accounts s" "transactionMerkle r0 = transactionMerkle s"
    by (simp_all add: books_def)
  have "replay_valid (E\<lparr>date_now_sec := date_now_sec E\<rparr>) r0 (length txs) v =
      replay_valid E s (length txs) v"
    by (rule replay_valid_alike) (simp_all add: books_def same t0 txs_def)
  with valid have g: "replay_valid E r0 (length (transactions s)) v"
    by (simp add: txs_def)
  from commit_replay_step[OF sender voters bools fresh keys g same] obtain c r' where
    c: "commit E (with_own_vote E s v) v (map fst (consensus s)) = Ok c"
      "transactions c = transactions s @ [R]"
      "replay_record E r0 (length (transactions s)) R = Ok (Suc (length (transactions s)), r')"
      "accounts r' = accounts c" "transactionMerkle r' = transactionMerkle c"
    unfolding R_def by blast
  have "replay_loop E z' 0 (txs @ [R]) = Ok (Suc (length txs), r')"
    using r0(1) c(3) by (simp add: replay_loop_append txs_def)
  with c show ?thesis
    unfolding R_def[symmetric] by (auto simp: z'_def txs_def)
qed


text \<open>On the funded node in a slot on \<open>tx_a\<close>: the chain replays from a fresh node
  to the node's accounts and tree; \<open>K1\<close> and the node vote true; the commit and
  the replay of the extended chain yield the same accounts and tree.\<close>

theorem commit_agrees_with_replay_witness:
  "accounts (funded_slot tx_a) ''K1'' \<noteq> None \<and>
   accounts (funded_slot tx_a) ''K0'' \<noteq> None \<and>
   map fst (consensus (with_own_vote sample_env (funded_slot tx_a) tx_a)) = [''K1'', ''K0''] \<and>
   votes_of (with_own_vote sample_env (funded_slot tx_a) tx_a) = [JBool True, JBool True] \<and>
   replay_valid sample_env (funded_slot tx_a) 5 tx_a \<and>
   replay_loop sample_env (fresh_node funded_chain) 0 funded_chain =
     Ok (5, (fresh_node funded_chain)\<lparr>accounts := funded_accounts,
                                          transactionMerkle := funded_tree\<rparr>) \<and>
   accounts (funded_slot tx_a) = funded_accounts \<and>
   transactionMerkle (funded_slot tx_a) = funded_tree \<and>
   accounts (caught (commit sample_env (with_own_vote sample_env (funded_slot tx_a) tx_a) tx_a
       [''K1''])) =
     [''K1'' \<mapsto> \<lparr>balance = 999999051, stake = 1000000000, nonce = 1\<rparr>,
      ''K2'' \<mapsto> \<lparr>balance = 1000000900, stake = 1000000000, nonce = 0\<rparr>,
      ''K0'' \<mapsto> \<lparr>balance = 151, stake = 0, nonce = 0\<rparr>] \<and>
   accounts (caught (createAccState sample_env
       (fresh_node (funded_chain @
          [historyRecord sample_env (with_own_vote sample_env (funded_slot tx_a) tx_a) tx_a]))
       (funded_chain @
          [historyRecord sample_env (with_own_vote sample_env (funded_slot tx_a) tx_a) tx_a]))) =
     [''K1'' \<mapsto> \<lparr>balance = 999999051, stake = 1000000000, nonce = 1\<rparr>,
      ''K2'' \<mapsto> \<lparr>balance = 1000000900, stake = 1000000000, nonce = 0\<rparr>,
      ''K0'' \<mapsto> \<lparr>balance = 151, stake = 0, nonce = 0\<rparr>]"
proof -
  define s where "s = funded_slot tx_a"
  define z where "z = fresh_node funded_chain"
  define R where "R = historyRecord sample_env (with_own_vote sample_env s tx_a) tx_a"
  have f: "accounts s = funded_accounts" "transactionMerkle s = funded_tree"
    "transactions s = funded_chain" "transactions z = funded_chain"
    "consensus s = [(''K1'', Vote_entry (funded_ballot tx_a))]" "publicKey s = ''K0''"
    by (simp_all add: s_def z_def funded_slot_def fresh_node_def P2P_def)
  have n: "length funded_chain = 5"
    by (simp add: funded_chain_def)
  have own: "consensus (with_own_vote sample_env s tx_a) =
      [(''K1'', Vote_entry (funded_ballot tx_a)), (''K0'', Self_entry tx_a (JBool True))]"
    by (simp add: with_own_vote_def f transactionValid_def funded_accounts_def
        timestampRange_def fee_def sample_defs)
  have h1: "accounts s (t_from tx_a) \<noteq> None"
    and a1: "accounts s ''K1'' \<noteq> None" and a0: "accounts s ''K0'' \<noteq> None"
    by (simp_all add: f funded_accounts_def tx_a_def)
  have h2: "\<forall>k \<in> set (map fst (consensus (with_own_vote sample_env s tx_a))). accounts s k \<noteq> None"
    using a1 a0 by (simp add: own)
  have h3: "\<forall>e \<in> set (consensus (with_own_vote sample_env s tx_a)).
      \<exists>b. entry_valid (snd e) = JBool b"
    by (auto simp: own funded_ballot_def)
  have h4: "publicKey s \<notin> set (map fst (consensus s))"
    and h5: "distinct (map fst (consensus s))"
    by (simp_all add: f)
  have h6: "replay_valid sample_env s (length (transactions s)) tx_a"
    by (simp add: replay_valid_def transactionValid_def f n funded_accounts_def
        timestampRange_def fee_def sample_defs)
  have h7: "replay_loop sample_env z 0 (transactions s) =
      Ok (length (transactions s), z\<lparr>accounts := funded_accounts, transactionMerkle := funded_tree\<rparr>)"
    unfolding f n
    by (simp add: z_def funded_defs sample_defs handler_defs replay_defs Let_def)
  have h8: "accounts (z\<lparr>accounts := funded_accounts, transactionMerkle := funded_tree\<rparr>) = accounts s"
    "transactionMerkle (z\<lparr>accounts := funded_accounts, transactionMerkle := funded_tree\<rparr>) =
      transactionMerkle s"
    by (simp_all add: f)
  from commit_agrees_with_replay[OF h1 h2 h3 h4 h5 h6 f(4)[folded f(3)] h7 h8]
  obtain c r' where
    c: "commit sample_env (with_own_vote sample_env s tx_a) tx_a (map fst (consensus s)) = Ok c"
      "transactions c = transactions s @ [R]"
      "replay_loop sample_env (z\<lparr>transactions := transactions c\<rparr>) 0 (transactions c) =
         Ok (length (transactions c), r')"
      "accounts r' = accounts c"
    unfolding R_def by blast
  have z': "z\<lparr>transactions := funded_chain @ [R]\<rparr> = fresh_node (funded_chain @ [R])"
    by (simp add: z_def fresh_node_def P2P_def)
  from c have same: "accounts (caught (createAccState sample_env (fresh_node (funded_chain @ [R]))
      (funded_chain @ [R]))) =
      accounts (caught (commit sample_env (with_own_vote sample_env s tx_a) tx_a [''K1'']))"
    by (simp add: f z' createAccState_def)
  have res: "accounts (caught (commit sample_env (with_own_vote sample_env s tx_a) tx_a [''K1''])) =
     [''K1'' \<mapsto> \<lparr>balance = 999999051, stake = 1000000000, nonce = 1\<rparr>,
      ''K2'' \<mapsto> \<lparr>balance = 1000000900, stake = 1000000000, nonce = 0\<rparr>,
      ''K0'' \<mapsto> \<lparr>balance = 151, stake = 0, nonce = 0\<rparr>]"
    by (auto simp: s_def funded_defs sample_defs handler_defs commit_defs P2P_def fun_eq_iff)
  have keys: "map fst (consensus (with_own_vote sample_env s tx_a)) = [''K1'', ''K0'']"
    and votes: "votes_of (with_own_vote sample_env s tx_a) = [JBool True, JBool True]"
    by (simp_all add: own votes_of_def funded_ballot_def)
  from same res keys votes a1 a0 h6 h7 f(1,2)
  show ?thesis
    unfolding s_def[symmetric] z_def[symmetric] R_def[symmetric] f(3) n by simp
qed

text \<open>
  The claim as stated fails when the majority overrules the node. On the funded
  node, whose accounts and tree are the replay of its chain, in a slot on
  \<open>tx_huge\<close>, which asks for more than \<open>K1\<close> owns: \<open>K1\<close> has voted true, \<open>K2\<close> votes
  true, the node votes false, and two against one commit. The commit debits \<open>K1\<close>
  and raises its nonce; the replay of the extended chain from a fresh node skips
  the record at its validity test and leaves \<open>K1\<close> as it was.
\<close>

theorem commit_overrules_replay_check:
  "replay_loop sample_env (fresh_node funded_chain) 0 funded_chain =
     Ok (5, (fresh_node funded_chain)\<lparr>accounts := funded_accounts,
                                          transactionMerkle := funded_tree\<rparr>) \<and>
   accounts (funded_slot tx_huge) = funded_accounts \<and>
   transactionMerkle (funded_slot tx_huge) = funded_tree \<and>
   transactions (funded_slot tx_huge) = funded_chain \<and>
   transactions (msgHandler sample_env (funded_slot tx_huge) 0
       (signed ''m3'' ''K2'' (TRANSACTION (funded_ballot tx_huge)))) =
     funded_chain @
       [\<lparr>h_transaction = tx_huge,
         h_validators = [(''K1'', JBool True), (''K2'', JBool True), (''K0'', JBool False)],
         h_validatorsRoot = ''#K0:K1:K2:false:true:true''\<rparr>] \<and>
   accounts (msgHandler sample_env (funded_slot tx_huge) 0
       (signed ''m3'' ''K2'' (TRANSACTION (funded_ballot tx_huge)))) ''K1'' =
     Some \<lparr>balance = 33, stake = 1000000000, nonce = 1\<rparr> \<and>
   accounts (caught (createAccState sample_env
       (fresh_node (funded_chain @
         [\<lparr>h_transaction = tx_huge,
           h_validators = [(''K1'', JBool True), (''K2'', JBool True), (''K0'', JBool False)],
           h_validatorsRoot = ''#K0:K1:K2:false:true:true''\<rparr>]))
       (funded_chain @
         [\<lparr>h_transaction = tx_huge,
           h_validators = [(''K1'', JBool True), (''K2'', JBool True), (''K0'', JBool False)],
           h_validatorsRoot = ''#K0:K1:K2:false:true:true''\<rparr>]))) ''K1'' =
     Some \<lparr>balance = 1000000000, stake = 1000000000, nonce = 0\<rparr>"
  by (simp add: funded_defs sample_defs handler_defs replay_defs commit_defs signed_def Let_def
      fold_nodes.simps)


end
